theory Spec2Isabelle
  imports Main "HOL-Library.Word" "HOL-Library.AList"
begin

section \<open>JavaScript strings\<close>

text \<open>
  A JavaScript string is a sequence of UTF-16 code units, and the regular expressions of
  \<^verbatim>\<open>calculateStats\<close> carry no \<^verbatim>\<open>u\<close> flag, so they work on code units. A code unit is a
  16-bit word; \<open>js\<close> embeds a literal (code units below 256).
\<close>

type_synonym jschar = "16 word"
type_synonym jsstring = "jschar list"

definition chr16 :: "char \<Rightarrow> jschar" where
  "chr16 c = of_nat (of_char c)"

definition js :: "string \<Rightarrow> jsstring" where
  "js s = map chr16 s"

text \<open>
  The class \<^verbatim>\<open>\s\<close> of ECMAScript: WhiteSpace and LineTerminator code points (TAB, LF, VT,
  FF, CR, SP, NBSP, U+1680, U+2000..U+200A, U+2028, U+2029, U+202F, U+205F, U+3000, BOM).
\<close>

definition isWhiteSpace :: "jschar \<Rightarrow> bool" where
  "isWhiteSpace c \<longleftrightarrow>
     c = 0x09 \<or> c = 0x0A \<or> c = 0x0B \<or> c = 0x0C \<or> c = 0x0D \<or> c = 0x20 \<or> c = 0xA0 \<or>
     c = 0x1680 \<or> (0x2000 \<le> c \<and> c \<le> 0x200A) \<or> c = 0x2028 \<or> c = 0x2029 \<or>
     c = 0x202F \<or> c = 0x205F \<or> c = 0x3000 \<or> c = 0xFEFF"

text \<open>A literal piece of a pattern, matched at the head of the input: the rest, or no match.\<close>

fun matchLit :: "jsstring \<Rightarrow> jsstring \<Rightarrow> jsstring option" where
  "matchLit [] s = Some s"
| "matchLit (p # ps) [] = None"
| "matchLit (p # ps) (c # cs) = (if p = c then matchLit ps cs else None)"

section \<open>The data model\<close>

record EOFStatsSettings =
  showUrls :: bool
  showLinks :: bool
  statsColor :: jsstring
  lineColor :: jsstring
  eofColor :: jsstring

definition DEFAULT_SETTINGS :: EOFStatsSettings where
  "DEFAULT_SETTINGS =
     \<lparr>showUrls = True, showLinks = True, statsColor = js ''#999999'',
      lineColor = js ''#999999'', eofColor = js ''#999999''\<rparr>"

record FileStats =
  urls :: nat
  links :: nat

section \<open>calculateStats\<close>

subsection \<open>The frontmatter pattern \<^verbatim>\<open>/^---[\s\S]*?---\n?/\<close>\<close>

text \<open>
  Every matcher takes the input from the position where the match is tried and returns
  the matched text and the input left after it. \<open>closingFence\<close> is \<^verbatim>\<open>---\n?\<close>: three
  dashes, then one line feed when there is one (the quantifier is greedy and nothing
  follows it in the pattern).
\<close>

definition closingFence :: "jsstring \<Rightarrow> (jsstring \<times> jsstring) option" where
  "closingFence s =
     (case matchLit (js ''---'') s of
        None \<Rightarrow> None
      | Some r \<Rightarrow>
          (case r of
             [] \<Rightarrow> Some (js ''---'', r)
           | c # r' \<Rightarrow>
               if c = 0x0A then Some (js ''---'' @ [c], r') else Some (js ''---'', r)))"

text \<open>
  \<^verbatim>\<open>[\s\S]*?---\n?\<close>: the lazy quantifier tries the rest of the pattern after zero code
  units, then after one, and so on; \<^verbatim>\<open>[\s\S]\<close> takes any code unit.
\<close>

fun lazyAnyThenFence :: "jsstring \<Rightarrow> (jsstring \<times> jsstring) option" where
  "lazyAnyThenFence [] = closingFence []"
| "lazyAnyThenFence (c # cs) =
     (case closingFence (c # cs) of
        Some mr \<Rightarrow> Some mr
      | None \<Rightarrow>
          (case lazyAnyThenFence cs of
             None \<Rightarrow> None
           | Some (m, r) \<Rightarrow> Some (c # m, r)))"

text \<open>
  The pattern has neither the \<^verbatim>\<open>m\<close> nor the \<^verbatim>\<open>g\<close> flag: \<^verbatim>\<open>^\<close> holds at index 0
  only, so the one match \<^verbatim>\<open>replace\<close> looks for can only start there.
\<close>

definition frontmatterRegex_exec :: "jsstring \<Rightarrow> (jsstring \<times> jsstring) option" where
  "frontmatterRegex_exec content =
     (case matchLit (js ''---'') content of
        None \<Rightarrow> None
      | Some r \<Rightarrow>
          (case lazyAnyThenFence r of
             None \<Rightarrow> None
           | Some (m, rest) \<Rightarrow> Some (js ''---'' @ m, rest)))"

text \<open>\<^verbatim>\<open>content.replace(/^---[\s\S]*?---\n?/, "")\<close>\<close>

definition replaceFrontmatter :: "jsstring \<Rightarrow> jsstring" where
  "replaceFrontmatter content =
     (case frontmatterRegex_exec content of
        None \<Rightarrow> content
      | Some (m, rest) \<Rightarrow> rest)"

subsection \<open>The URL pattern \<^verbatim>\<open>/https?:\/\/[^\s)\]>]+/g\<close>\<close>

definition urlChar :: "jschar \<Rightarrow> bool" where
  "urlChar c \<longleftrightarrow>
     \<not> isWhiteSpace c \<and> c \<noteq> chr16 CHR '')'' \<and> c \<noteq> chr16 CHR '']'' \<and> c \<noteq> chr16 CHR ''>''"

text \<open>
  \<^verbatim>\<open>:\/\/[^\s)\]>]+\<close>: the class is greedy and ends the pattern, so it takes the longest
  run, which must not be empty.
\<close>

definition urlTail :: "jsstring \<Rightarrow> (jsstring \<times> jsstring) option" where
  "urlTail s =
     (case matchLit (js ''://'') s of
        None \<Rightarrow> None
      | Some r \<Rightarrow>
          (case takeWhile urlChar r of
             [] \<Rightarrow> None
           | b # bs \<Rightarrow> Some (js ''://'' @ b # bs, dropWhile urlChar r)))"

text \<open>
  \<^verbatim>\<open>https?\<close> then the tail: the optional \<^verbatim>\<open>s\<close> is tried first, and the pattern is
  tried without it when the tail fails after it.
\<close>

definition urlRegex_at :: "jsstring \<Rightarrow> (jsstring \<times> jsstring) option" where
  "urlRegex_at s =
     (case matchLit (js ''http'') s of
        None \<Rightarrow> None
      | Some r \<Rightarrow>
          (case (case r of
                   [] \<Rightarrow> None
                 | c # r' \<Rightarrow> if c = chr16 CHR ''s'' then urlTail r' else None) of
             Some (m, rest) \<Rightarrow> Some (js ''https'' @ m, rest)
           | None \<Rightarrow>
               (case urlTail r of
                  None \<Rightarrow> None
                | Some (m, rest) \<Rightarrow> Some (js ''http'' @ m, rest))))"

text \<open>
  A pattern with the \<^verbatim>\<open>g\<close> flag is tried at \<^verbatim>\<open>lastIndex\<close>, then one code unit further,
  up to the end of the input. No pattern here looks behind the position where it is
  tried, so the input from \<^verbatim>\<open>lastIndex\<close> on stands for \<^verbatim>\<open>lastIndex\<close>.
\<close>

fun urlRegex_exec :: "jsstring \<Rightarrow> (jsstring \<times> jsstring) option" where
  "urlRegex_exec [] = urlRegex_at []"
| "urlRegex_exec (c # cs) =
     (case urlRegex_at (c # cs) of
        Some mr \<Rightarrow> Some mr
      | None \<Rightarrow> urlRegex_exec cs)"

lemma matchLit_Some: "matchLit p s = Some r \<Longrightarrow> s = p @ r"
  by (induction p s rule: matchLit.induct) (auto split: if_splits)

lemma matchLit_append: "matchLit p (p @ r) = Some r"
  by (induction p) auto

lemma urlTail_Some:
  assumes "urlTail s = Some (m, rest)"
  shows "s = m @ rest \<and> m \<noteq> []"
proof -
  from assms obtain r b bs where r: "matchLit (js ''://'') s = Some r"
    and tw: "takeWhile urlChar r = b # bs"
    and m: "m = js ''://'' @ b # bs" and rest: "rest = dropWhile urlChar r"
    by (auto simp: urlTail_def split: option.splits list.splits)
  have "r = (b # bs) @ rest"
    using tw rest takeWhile_dropWhile_id [of urlChar r] by simp
  with matchLit_Some [OF r] m show ?thesis by simp
qed

lemma urlRegex_at_Some:
  assumes "urlRegex_at s = Some (m, rest)"
  shows "s = m @ rest \<and> m \<noteq> []"
proof -
  from assms obtain r where r: "matchLit (js ''http'') s = Some r"
    by (auto simp: urlRegex_at_def split: option.splits)
  have s: "s = js ''http'' @ r" by (rule matchLit_Some [OF r])
  show ?thesis
  proof (cases "case r of [] \<Rightarrow> None | c # r' \<Rightarrow> if c = chr16 CHR ''s'' then urlTail r' else None")
    case None
    with assms r obtain m' where "urlTail r = Some (m', rest)" "m = js ''http'' @ m'"
      by (auto simp: urlRegex_at_def split: option.splits)
    with urlTail_Some [of r m' rest] s show ?thesis by simp
  next
    case (Some mr)
    obtain m' rest' where mr: "mr = (m', rest')" by (cases mr)
    from Some mr obtain r' where r': "r = chr16 CHR ''s'' # r'" "urlTail r' = Some (m', rest')"
      by (auto split: list.splits if_splits)
    from assms r Some mr have "m = js ''https'' @ m'" "rest = rest'"
      by (auto simp: urlRegex_at_def)
    with urlTail_Some [OF r'(2)] s r'(1) show ?thesis by (simp add: js_def)
  qed
qed

lemma urlRegex_exec_shorter:
  "urlRegex_exec s = Some (m, rest) \<Longrightarrow> length rest < length s"
proof (induction s)
  case Nil
  then show ?case by (auto dest: urlRegex_at_Some)
next
  case (Cons c cs)
  show ?case
  proof (cases "urlRegex_at (c # cs)")
    case None
    with Cons show ?thesis by simp
  next
    case (Some mr)
    with Cons.prems have "urlRegex_at (c # cs) = Some (m, rest)" by simp
    from urlRegex_at_Some [OF this] show ?thesis
      by (metis length_append length_greater_0_conv less_add_same_cancel2)
  qed
qed

text \<open>
  \<^verbatim>\<open>String.prototype.match\<close> with a global pattern: \<^verbatim>\<open>lastIndex\<close> starts at 0, every
  match is collected and the search goes on after it (a match of this pattern is never
  empty, so the step over an empty match is never taken); \<^verbatim>\<open>null\<close> when nothing matched.
\<close>

function urlRegex_matches :: "jsstring \<Rightarrow> jsstring list" where
  "urlRegex_matches s =
     (case urlRegex_exec s of
        None \<Rightarrow> []
      | Some (m, rest) \<Rightarrow> m # urlRegex_matches rest)"
  by pat_completeness auto
termination
  by (relation "measure length") (auto dest: urlRegex_exec_shorter)

declare urlRegex_matches.simps [simp del]

definition match_urlRegex :: "jsstring \<Rightarrow> jsstring list option" where
  "match_urlRegex s = (case urlRegex_matches s of [] \<Rightarrow> None | m # ms \<Rightarrow> Some (m # ms))"

subsection \<open>The reference pattern \<^verbatim>\<open>/\[\[([^\]|#]+)/g\<close>\<close>

definition linkChar :: "jschar \<Rightarrow> bool" where
  "linkChar c \<longleftrightarrow> c \<noteq> chr16 CHR '']'' \<and> c \<noteq> chr16 CHR ''|'' \<and> c \<noteq> chr16 CHR ''#''"

text \<open>The result is capture group 1 and the input after the match.\<close>

definition wikilinkRegex_at :: "jsstring \<Rightarrow> (jsstring \<times> jsstring) option" where
  "wikilinkRegex_at s =
     (case matchLit (js ''[['') s of
        None \<Rightarrow> None
      | Some r \<Rightarrow>
          (case takeWhile linkChar r of
             [] \<Rightarrow> None
           | b # bs \<Rightarrow> Some (b # bs, dropWhile linkChar r)))"

fun wikilinkRegex_exec :: "jsstring \<Rightarrow> (jsstring \<times> jsstring) option" where
  "wikilinkRegex_exec [] = wikilinkRegex_at []"
| "wikilinkRegex_exec (c # cs) =
     (case wikilinkRegex_at (c # cs) of
        Some mr \<Rightarrow> Some mr
      | None \<Rightarrow> wikilinkRegex_exec cs)"

lemma wikilinkRegex_at_Some:
  assumes "wikilinkRegex_at s = Some (m1, rest)"
  shows "s = js ''[['' @ m1 @ rest \<and> m1 \<noteq> [] \<and> m1 = takeWhile linkChar (drop 2 s)"
proof -
  from assms obtain r where r: "matchLit (js ''[['') s = Some r"
    by (auto simp: wikilinkRegex_at_def split: option.splits)
  with assms have "(case takeWhile linkChar r of
                      [] \<Rightarrow> None
                    | b # bs \<Rightarrow> Some (b # bs, dropWhile linkChar r)) = Some (m1, rest)"
    by (simp add: wikilinkRegex_at_def)
  then have tw: "takeWhile linkChar r = m1" and ne: "m1 \<noteq> []"
    and dw: "dropWhile linkChar r = rest"
    by (auto split: list.splits)
  have s: "s = js ''[['' @ r" by (rule matchLit_Some [OF r])
  have split: "m1 @ rest = r"
    unfolding tw [symmetric] dw [symmetric] by (rule takeWhile_dropWhile_id)
  have "drop 2 s = r" unfolding s by (simp add: js_def)
  then have "m1 = takeWhile linkChar (drop 2 s)" using tw by simp
  moreover have "s = js ''[['' @ m1 @ rest" unfolding split by (rule s)
  ultimately show ?thesis using ne by blast
qed

lemma wikilinkRegex_exec_shorter:
  "wikilinkRegex_exec s = Some (m1, rest) \<Longrightarrow> length rest < length s"
proof (induction s)
  case Nil
  then show ?case by (auto dest: wikilinkRegex_at_Some)
next
  case (Cons c cs)
  show ?case
  proof (cases "wikilinkRegex_at (c # cs)")
    case None
    with Cons show ?thesis by simp
  next
    case (Some mr)
    with Cons.prems have "wikilinkRegex_at (c # cs) = Some (m1, rest)" by simp
    from wikilinkRegex_at_Some [OF this] have "c # cs = js ''[['' @ m1 @ rest"
      by simp
    then have "length (c # cs) = length (js ''[['' @ m1 @ rest)"
      by (rule arg_cong)
    then show ?thesis by (simp add: js_def)
  qed
qed

subsection \<open>Sets of strings\<close>

text \<open>
  A JavaScript \<^verbatim>\<open>Set\<close> keeps its members in insertion order, without duplicates; strings
  are members by value.
\<close>

definition Set_add :: "'a \<Rightarrow> 'a list \<Rightarrow> 'a list" where
  "Set_add x S = (if x \<in> set S then S else S @ [x])"

definition Set_new :: "'a list \<Rightarrow> 'a list" where
  "Set_new xs = foldl (\<lambda>S x. Set_add x S) [] xs"

definition Set_size :: "'a list \<Rightarrow> nat" where
  "Set_size S = length S"

text \<open>
  The loop \<^verbatim>\<open>while ((match = wikilinkRegex.exec(c)) !== null) links.add(match[1])\<close>: its
  state is the input from \<^verbatim>\<open>lastIndex\<close> on and the set built so far.
\<close>

function wikilinkLoop :: "jsstring \<Rightarrow> jsstring list \<Rightarrow> jsstring list" where
  "wikilinkLoop s linkSet =
     (case wikilinkRegex_exec s of
        None \<Rightarrow> linkSet
      | Some (m1, rest) \<Rightarrow> wikilinkLoop rest (Set_add m1 linkSet))"
  by pat_completeness auto
termination
  by (relation "measure (\<lambda>(s, linkSet). length s)") (auto dest: wikilinkRegex_exec_shorter)

declare wikilinkLoop.simps [simp del]

definition calculateStats :: "jsstring \<Rightarrow> FileStats" where
  "calculateStats content =
     (let contentWithoutFrontmatter = replaceFrontmatter content;
          urlSet = Set_new (case match_urlRegex contentWithoutFrontmatter of
                              None \<Rightarrow> []
                            | Some ms \<Rightarrow> ms);
          linkSet = wikilinkLoop contentWithoutFrontmatter []
      in \<lparr>urls = Set_size urlSet, links = Set_size linkSet\<rparr>)"

section \<open>formatNumber and buildStatsString\<close>

text \<open>
  \<^verbatim>\<open>num.toLocaleString()\<close> is the runtime's rendering of a number in the default locale; it
  is a parameter of the model. The counts are sizes of sets, so they are naturals.
\<close>

definition formatNumber :: "(nat \<Rightarrow> jsstring) \<Rightarrow> nat \<Rightarrow> jsstring" where
  "formatNumber toLocaleString num = toLocaleString num"

text \<open>
  One such rendering, that of the locale \<^verbatim>\<open>en-US\<close>: decimal digits, in groups of three
  separated by commas.
\<close>

fun decimalDigits :: "nat \<Rightarrow> jsstring" where
  "decimalDigits n =
     (if n < 10 then [of_nat (48 + n)]
      else decimalDigits (n div 10) @ [of_nat (48 + n mod 10)])"

declare decimalDigits.simps [simp del]

fun groupThousands :: "jsstring \<Rightarrow> jsstring" where
  "groupThousands (a # b # c # d # ds) = a # b # c # chr16 CHR '','' # groupThousands (d # ds)"
| "groupThousands ds = ds"

definition toLocaleString_enUS :: "nat \<Rightarrow> jsstring" where
  "toLocaleString_enUS n = rev (groupThousands (rev (decimalDigits n)))"

text \<open>\<^verbatim>\<open>Array.prototype.join\<close>\<close>

fun join :: "jsstring \<Rightarrow> jsstring list \<Rightarrow> jsstring" where
  "join sep [] = []"
| "join sep [x] = x"
| "join sep (x # y # ys) = x @ sep @ join sep (y # ys)"

definition buildStatsString ::
  "(nat \<Rightarrow> jsstring) \<Rightarrow> FileStats \<Rightarrow> EOFStatsSettings \<Rightarrow> jsstring" where
  "buildStatsString toLocaleString stats settings =
     (let parts = [];
          parts = (if showUrls settings
                   then parts @ [js ''URLs: '' @ formatNumber toLocaleString (urls stats)]
                   else parts);
          parts = (if showLinks settings
                   then parts @ [js ''Links: '' @ formatNumber toLocaleString (links stats)]
                   else parts)
      in join (js '' | '') parts)"

section \<open>The footer element\<close>

text \<open>
  An element of the document tree: tag name, class name, text content, inline style
  properties, raw inner HTML (when the code assigns \<^verbatim>\<open>innerHTML\<close>) and child elements.
\<close>

datatype HTMLElement =
  HTMLElement (tagName: string) (className: jsstring) (textContent: jsstring)
    (style: "(string \<times> jsstring) list") (innerHTML: jsstring) (childNodes: "HTMLElement list")

definition createElement :: "string \<Rightarrow> HTMLElement" where
  "createElement tag = HTMLElement tag [] [] [] [] []"

fun setClassName :: "jsstring \<Rightarrow> HTMLElement \<Rightarrow> HTMLElement" where
  "setClassName cls (HTMLElement t c x st ih ch) = HTMLElement t cls x st ih ch"

fun setTextContent :: "jsstring \<Rightarrow> HTMLElement \<Rightarrow> HTMLElement" where
  "setTextContent text (HTMLElement t c x st ih ch) = HTMLElement t c text st ih ch"

fun setStyle :: "string \<Rightarrow> jsstring \<Rightarrow> HTMLElement \<Rightarrow> HTMLElement" where
  "setStyle prop v (HTMLElement t c x st ih ch) = HTMLElement t c x (AList.update prop v st) ih ch"

fun setInnerHTML :: "jsstring \<Rightarrow> HTMLElement \<Rightarrow> HTMLElement" where
  "setInnerHTML html (HTMLElement t c x st ih ch) = HTMLElement t c x st html ch"

fun appendChild :: "HTMLElement \<Rightarrow> HTMLElement \<Rightarrow> HTMLElement" where
  "appendChild (HTMLElement t c x st ih ch) child = HTMLElement t c x st ih (ch @ [child])"

text \<open>
  The host's \<^verbatim>\<open>parent.createEl(tag, {cls, text})\<close> makes the element and appends it to the
  parent; here it makes the element, and the caller appends it once its style is set.
\<close>

definition createEl :: "string \<Rightarrow> jsstring \<Rightarrow> jsstring \<Rightarrow> HTMLElement" where
  "createEl tag cls text = setTextContent text (setClassName cls (createElement tag))"

definition createEOFStatsElement ::
  "(nat \<Rightarrow> jsstring) \<Rightarrow> FileStats \<Rightarrow> EOFStatsSettings \<Rightarrow> HTMLElement" where
  "createEOFStatsElement toLocaleString stats settings =
     (let container = setClassName (js ''eof-stats-container'') (createElement ''div'');
          statsString = buildStatsString toLocaleString stats settings;
          container =
            (if statsString \<noteq> []
             then appendChild container
                    (setStyle ''color'' (statsColor settings)
                       (createEl ''div'' (js ''eof-stats-line'') statsString))
             else container);
          line1 = setStyle ''borderColor'' (lineColor settings)
                    (createEl ''div'' (js ''eof-line-horizontal'') []);
          textDiv = setStyle ''color'' (eofColor settings)
                      (createEl ''div'' (js ''eof-text'') (js ''EOF''));
          line2 = setStyle ''borderColor'' (lineColor settings)
                    (createEl ''div'' (js ''eof-line-horizontal'') []);
          eofDiv = appendChild (appendChild (appendChild
                     (createEl ''div'' (js ''eof-indicator'') []) line1) textDiv) line2
      in appendChild container eofDiv)"

text \<open>
  In \<^verbatim>\<open>main.ts\<close> the same container is built in line, once in \<^verbatim>\<open>toDOM\<close> and once in
  \<^verbatim>\<open>addEOFToReadingView\<close>, and the indicator is a template assigned to \<^verbatim>\<open>innerHTML\<close>. The two
  copies differ in the indentation of the template only, the parameter \<open>indent\<close>.
\<close>

definition eofIndicatorHTML :: "nat \<Rightarrow> EOFStatsSettings \<Rightarrow> jsstring" where
  \<open>eofIndicatorHTML indent settings =
     js [CHR 0x0A] @ js (replicate indent CHR '' '') @
     js ''<div class="eof-line-horizontal" style="border-color: '' @ lineColor settings @
     js ''"></div>'' @
     js [CHR 0x0A] @ js (replicate indent CHR '' '') @
     js ''<div class="eof-text" style="color: '' @ eofColor settings @ js ''">EOF</div>'' @
     js [CHR 0x0A] @ js (replicate indent CHR '' '') @
     js ''<div class="eof-line-horizontal" style="border-color: '' @ lineColor settings @
     js ''"></div>'' @
     js [CHR 0x0A] @ js (replicate (indent - 2) CHR '' '')\<close>

definition eofContainer_main ::
  "nat \<Rightarrow> (nat \<Rightarrow> jsstring) \<Rightarrow> FileStats \<Rightarrow> EOFStatsSettings \<Rightarrow> HTMLElement" where
  "eofContainer_main indent toLocaleString stats settings =
     (let container = setClassName (js ''eof-stats-container'') (createElement ''div'');
          statsString = buildStatsString toLocaleString stats settings;
          container =
            (if statsString \<noteq> []
             then appendChild container
                    (setStyle ''color'' (statsColor settings)
                       (setTextContent statsString
                          (setClassName (js ''eof-stats-line'') (createElement ''div''))))
             else container);
          eofDiv = setInnerHTML (eofIndicatorHTML indent settings)
                     (setClassName (js ''eof-indicator'') (createElement ''div''))
      in appendChild container eofDiv)"

section \<open>The live view: widget, decoration and state field\<close>

text \<open>
  The settings are one mutable object, shared by reference: the settings tab assigns its
  fields in place, and a widget holds a reference to a settings object. The store maps an
  address to the object there; a new object takes the next address.
\<close>

type_synonym addr = nat
type_synonym heap = "EOFStatsSettings list"

definition assignSettings :: "heap \<Rightarrow> addr \<Rightarrow> (EOFStatsSettings \<Rightarrow> EOFStatsSettings) \<Rightarrow> heap" where
  "assignSettings h a f = h[a := f (h ! a)]"

record EOFStatsWidget =
  this_stats :: FileStats
  this_settings :: addr

definition toDOM :: "(nat \<Rightarrow> jsstring) \<Rightarrow> heap \<Rightarrow> EOFStatsWidget \<Rightarrow> HTMLElement" where
  "toDOM toLocaleString h this =
     createEOFStatsElement toLocaleString (this_stats this) (h ! this_settings this)"

definition toDOM_main :: "(nat \<Rightarrow> jsstring) \<Rightarrow> heap \<Rightarrow> EOFStatsWidget \<Rightarrow> HTMLElement" where
  "toDOM_main toLocaleString h this =
     eofContainer_main 6 toLocaleString (this_stats this) (h ! this_settings this)"

definition eq :: "heap \<Rightarrow> EOFStatsWidget \<Rightarrow> EOFStatsWidget \<Rightarrow> bool" where
  "eq h this other \<longleftrightarrow>
     urls (this_stats this) = urls (this_stats other) \<and>
     links (this_stats this) = links (this_stats other) \<and>
     showUrls (h ! this_settings this) = showUrls (h ! this_settings other) \<and>
     showLinks (h ! this_settings this) = showLinks (h ! this_settings other) \<and>
     statsColor (h ! this_settings this) = statsColor (h ! this_settings other) \<and>
     lineColor (h ! this_settings this) = lineColor (h ! this_settings other) \<and>
     eofColor (h ! this_settings this) = eofColor (h ! this_settings other)"

record Decoration =
  widget :: EOFStatsWidget
  side :: int
  block :: bool

record DecorationRange =
  pos :: nat
  deco :: Decoration

type_synonym DecorationSet = "DecorationRange list"

text \<open>
  \<^verbatim>\<open>buildEOFDecoration\<close>, with the copy \<^verbatim>\<open>{ ...settings }\<close> of the later version of the
  source: a new object with the fields of the one at \<open>settings\<close>.
\<close>

definition buildEOFDecoration :: "heap \<Rightarrow> jsstring \<Rightarrow> addr \<Rightarrow> DecorationSet \<times> heap" where
  "buildEOFDecoration h content settings =
     (let stats = calculateStats content;
          settingsCopy = length h;
          h' = h @ [h ! settings];
          widget = \<lparr>this_stats = stats, this_settings = settingsCopy\<rparr>;
          deco = \<lparr>widget = widget, side = 1, block = True\<rparr>
      in ([\<lparr>pos = length content, deco = deco\<rparr>], h'))"

text \<open>\<^verbatim>\<open>buildEOFDecoration\<close> of \<^verbatim>\<open>main.ts\<close>: the widget gets the reference it was given.\<close>

definition buildEOFDecoration_main :: "heap \<Rightarrow> jsstring \<Rightarrow> addr \<Rightarrow> DecorationSet \<times> heap" where
  "buildEOFDecoration_main h content settings =
     (let stats = calculateStats content;
          widget = \<lparr>this_stats = stats, this_settings = settings\<rparr>;
          deco = \<lparr>widget = widget, side = 1, block = True\<rparr>
      in ([\<lparr>pos = length content, deco = deco\<rparr>], h))"

text \<open>
  A transaction of the editor: whether it changes the document, its change set, and the
  text of the document after it. The change set is given by its position mapping, and
  the editor's \<^verbatim>\<open>decorations.map(changes)\<close> moves every range through it, dropping a range
  whose position the mapping deletes.
\<close>

record Transaction =
  docChanged :: bool
  changes :: "nat \<Rightarrow> nat option"
  state_doc :: jsstring

definition DecorationSet_map :: "(nat \<Rightarrow> nat option) \<Rightarrow> DecorationSet \<Rightarrow> DecorationSet" where
  "DecorationSet_map mapPos decorations =
     List.map_filter
       (\<lambda>r. case mapPos (pos r) of None \<Rightarrow> None | Some p \<Rightarrow> Some (r\<lparr>pos := p\<rparr>))
       decorations"

text \<open>
  The state field of \<^verbatim>\<open>createEOFStatsField(plugin)\<close>; \<open>plugin_settings\<close> is the reference
  \<^verbatim>\<open>plugin.settings\<close>. Both versions of the source have the same field, over their own
  \<^verbatim>\<open>buildEOFDecoration\<close>.
\<close>

definition create :: "heap \<Rightarrow> addr \<Rightarrow> jsstring \<Rightarrow> DecorationSet \<times> heap" where
  "create h plugin_settings doc = buildEOFDecoration h doc plugin_settings"

definition update ::
  "heap \<Rightarrow> addr \<Rightarrow> DecorationSet \<Rightarrow> Transaction \<Rightarrow> DecorationSet \<times> heap" where
  "update h plugin_settings decorations tr =
     (if \<not> docChanged tr then (DecorationSet_map (changes tr) decorations, h)
      else buildEOFDecoration h (state_doc tr) plugin_settings)"

definition create_main :: "heap \<Rightarrow> addr \<Rightarrow> jsstring \<Rightarrow> DecorationSet \<times> heap" where
  "create_main h plugin_settings doc = buildEOFDecoration_main h doc plugin_settings"

definition update_main ::
  "heap \<Rightarrow> addr \<Rightarrow> DecorationSet \<Rightarrow> Transaction \<Rightarrow> DecorationSet \<times> heap" where
  "update_main h plugin_settings decorations tr =
     (if \<not> docChanged tr then (DecorationSet_map (changes tr) decorations, h)
      else buildEOFDecoration_main h (state_doc tr) plugin_settings)"

section \<open>The reading view: addEOFToReadingView\<close>

record SectionInfo =
  lineStart :: nat
  lineEnd :: nat

datatype TAbstractFile = TFile jsstring | TFolder jsstring

datatype rejection = Rejection jsstring

text \<open>
  The vault: \<^verbatim>\<open>getAbstractFileByPath\<close> gives the entry at a path or \<^verbatim>\<open>null\<close>, and the
  promise of \<^verbatim>\<open>cachedRead\<close> is fulfilled with the text or rejected.
\<close>

record Vault =
  getAbstractFileByPath :: "jsstring \<Rightarrow> TAbstractFile option"
  cachedRead :: "TAbstractFile \<Rightarrow> rejection + jsstring"

record MarkdownPostProcessorContext =
  sourcePath :: jsstring
  getSectionInfo :: "HTMLElement \<Rightarrow> SectionInfo option"

text \<open>
  What is left once the call and its promise are over: the call itself always returns
  to the render pipeline; the promise chain is either settled with every rejection
  handled, or ends in a rejection that no handler takes.
\<close>

datatype completion = Settled | UnhandledRejection rejection

text \<open>\<^verbatim>\<open>content.split("\n")\<close>\<close>

fun split_newline :: "jsstring \<Rightarrow> jsstring list" where
  "split_newline [] = [[]]"
| "split_newline (c # cs) =
     (if c = 0x0A then [] # split_newline cs
      else (case split_newline cs of
              [] \<Rightarrow> [[c]]
            | l # ls \<Rightarrow> (c # l) # ls))"

text \<open>
  The later version of the source. \<open>settings\<close> is the value of \<^verbatim>\<open>this.settings\<close> when the
  promise is fulfilled; the result is the fragment as the adapter leaves it.
\<close>

definition addEOFToReadingView ::
  "(nat \<Rightarrow> jsstring) \<Rightarrow> EOFStatsSettings \<Rightarrow> Vault \<Rightarrow> HTMLElement \<Rightarrow>
   MarkdownPostProcessorContext \<Rightarrow> HTMLElement \<times> completion" where
  "addEOFToReadingView toLocaleString settings vault el ctx =
     (case getSectionInfo ctx el of
        None \<Rightarrow> (el, Settled)
      | Some sectionInfo \<Rightarrow>
          (case getAbstractFileByPath vault (sourcePath ctx) of
             None \<Rightarrow> (el, Settled)
           | Some (TFolder p) \<Rightarrow> (el, Settled)
           | Some (TFile p) \<Rightarrow>
               (case cachedRead vault (TFile p) of
                  Inl r \<Rightarrow> (el, Settled)
                | Inr content \<Rightarrow>
                    (let lastLineIndex = length (split_newline content) - 1
                     in if lineEnd sectionInfo \<ge> lastLineIndex
                        then (let stats = calculateStats content
                              in (appendChild el
                                    (createEOFStatsElement toLocaleString stats settings),
                                  Settled))
                        else (el, Settled)))))"

text \<open>
  \<^verbatim>\<open>main.ts\<close>: any entry found is read (\<^verbatim>\<open>file as any\<close>), and the promise has no
  \<^verbatim>\<open>catch\<close>.
\<close>

definition addEOFToReadingView_main ::
  "(nat \<Rightarrow> jsstring) \<Rightarrow> EOFStatsSettings \<Rightarrow> Vault \<Rightarrow> HTMLElement \<Rightarrow>
   MarkdownPostProcessorContext \<Rightarrow> HTMLElement \<times> completion" where
  "addEOFToReadingView_main toLocaleString settings vault el ctx =
     (case getSectionInfo ctx el of
        None \<Rightarrow> (el, Settled)
      | Some sectionInfo \<Rightarrow>
          (case getAbstractFileByPath vault (sourcePath ctx) of
             None \<Rightarrow> (el, Settled)
           | Some file \<Rightarrow>
               (case cachedRead vault file of
                  Inl r \<Rightarrow> (el, UnhandledRejection r)
                | Inr content \<Rightarrow>
                    (let lines = split_newline content;
                         lastLineIndex = length lines - 1
                     in if lineEnd sectionInfo \<ge> lastLineIndex
                        then (let stats = calculateStats content
                              in (appendChild el
                                    (eofContainer_main 10 toLocaleString stats settings),
                                  Settled))
                        else (el, Settled)))))"

section \<open>Properties of the sets\<close>

lemma Set_add_set: "set (Set_add x S) = insert x (set S)"
  by (auto simp: Set_add_def)

lemma Set_add_distinct: "distinct S \<Longrightarrow> distinct (Set_add x S)"
  by (simp add: Set_add_def)

lemma foldl_Set_add:
  "distinct S \<Longrightarrow>
   distinct (foldl (\<lambda>S x. Set_add x S) S xs) \<and>
   set (foldl (\<lambda>S x. Set_add x S) S xs) = set S \<union> set xs"
  by (induction xs arbitrary: S) (auto simp: Set_add_set Set_add_distinct)

lemma Set_size_Set_new: "Set_size (Set_new xs) = card (set xs)"
proof -
  have "distinct (Set_new xs)" and "set (Set_new xs) = set xs"
    using foldl_Set_add [of "[]" xs] by (simp_all add: Set_new_def)
  then show ?thesis
    unfolding Set_size_def by (metis distinct_card)
qed

section \<open>The end-to-end scenario\<close>

text \<open>
  The document of the scenario: a metadata block of one line, a line with one URL twice,
  and a line with three references to two targets.
\<close>

definition scenario1 :: jsstring where
  "scenario1 =
     js ''---\<newline>title: Test\<newline>---\<newline>See https://a.example/x and https://a.example/x again.\<newline>Also [[Note A]] and [[Note A|alias]] and [[Note B]].''"

lemma scenario1_stats: "calculateStats scenario1 = \<lparr>urls = 1, links = 2\<rparr>"
  unfolding scenario1_def by code_simp

lemma scenario1_links:
  "wikilinkLoop (replaceFrontmatter scenario1) [] = [js ''Note A'', js ''Note B'']"
  unfolding scenario1_def by code_simp

text \<open>
  Claim C2: on the document of the scenario, \<open>calculateStats\<close> counts one URL and two
  references, the targets \<^verbatim>\<open>Note A\<close> and \<^verbatim>\<open>Note B\<close>, and with both toggles on
  \<open>buildStatsString\<close> gives \<^verbatim>\<open>URLs: 1 | Links: 2\<close>, in a locale that writes the numbers
  one and two as \<^verbatim>\<open>1\<close> and \<^verbatim>\<open>2\<close>.
\<close>

theorem C2_scenario:
  assumes "toLocaleString 1 = js ''1''" and "toLocaleString 2 = js ''2''"
    and "showUrls settings" and "showLinks settings"
  shows "urls (calculateStats scenario1) = 1 \<and> links (calculateStats scenario1) = 2 \<and>
         wikilinkLoop (replaceFrontmatter scenario1) [] = [js ''Note A'', js ''Note B''] \<and>
         buildStatsString toLocaleString (calculateStats scenario1) settings =
           js ''URLs: 1 | Links: 2''"
proof -
  have "buildStatsString toLocaleString (calculateStats scenario1) settings =
          js ''URLs: '' @ toLocaleString 1 @ js '' | '' @ js ''Links: '' @ toLocaleString 2"
    using assms(3,4) unfolding scenario1_stats
    by (simp add: buildStatsString_def formatNumber_def)
  also have "\<dots> = js ''URLs: 1 | Links: 2''"
    unfolding assms(1,2) by (simp add: js_def)
  finally show ?thesis
    using scenario1_links by (simp add: scenario1_stats)
qed

theorem C2_scenario_witness:
  "toLocaleString_enUS 1 = js ''1'' \<and> toLocaleString_enUS 2 = js ''2'' \<and>
   showUrls DEFAULT_SETTINGS \<and> showLinks DEFAULT_SETTINGS \<and>
   buildStatsString toLocaleString_enUS (calculateStats scenario1) DEFAULT_SETTINGS =
     js ''URLs: 1 | Links: 2''"
proof -
  have a: "toLocaleString_enUS 1 = js ''1''" by code_simp
  have b: "toLocaleString_enUS 2 = js ''2''" by code_simp
  have c: "showUrls DEFAULT_SETTINGS" by (simp add: DEFAULT_SETTINGS_def)
  have d: "showLinks DEFAULT_SETTINGS" by (simp add: DEFAULT_SETTINGS_def)
  from C2_scenario [OF a b c d] a b c d show ?thesis by simp
qed

section \<open>The formatter\<close>

text \<open>\<^verbatim>\<open>String.prototype.includes\<close>\<close>

fun String_includes :: "jsstring \<Rightarrow> jsstring \<Rightarrow> bool" where
  "String_includes sep [] = (sep = [])"
| "String_includes sep (c # cs) = (matchLit sep (c # cs) \<noteq> None \<or> String_includes sep cs)"

lemma includes_set: "String_includes sep s \<Longrightarrow> set sep \<subseteq> set s"
proof (induction s)
  case Nil
  then show ?case by simp
next
  case (Cons c cs)
  show ?case
  proof (cases "matchLit sep (c # cs)")
    case None
    with Cons show ?thesis by auto
  next
    case (Some r)
    from matchLit_Some [OF this] show ?thesis by auto
  qed
qed

lemma no_bar_no_separator:
  assumes "chr16 CHR ''|'' \<notin> set s"
  shows "\<not> String_includes (js '' | '') s"
proof
  assume "String_includes (js '' | '') s"
  from includes_set [OF this] have "chr16 CHR ''|'' \<in> set s" by (simp add: js_def)
  with assms show False by simp
qed

lemma label_no_bar:
  "chr16 CHR ''|'' \<notin> set (js ''URLs: '')" "chr16 CHR ''|'' \<notin> set (js ''Links: '')"
  by (simp_all add: js_def chr16_def)

text \<open>
  Claim C5: with both toggles off \<open>buildStatsString\<close> gives the empty string; with one
  toggle on it gives that segment alone, which holds no separator \<^verbatim>\<open> | \<close> (the
  rendering of a number has no bar); with both on it gives the URL segment, the
  separator, then the link segment.
\<close>

theorem C5_buildStatsString:
  "(\<not> showUrls settings \<and> \<not> showLinks settings \<longrightarrow>
      buildStatsString toLocaleString stats settings = []) \<and>
   (showUrls settings \<and> \<not> showLinks settings \<longrightarrow>
      buildStatsString toLocaleString stats settings =
        js ''URLs: '' @ toLocaleString (urls stats)) \<and>
   (\<not> showUrls settings \<and> showLinks settings \<longrightarrow>
      buildStatsString toLocaleString stats settings =
        js ''Links: '' @ toLocaleString (links stats)) \<and>
   (showUrls settings \<and> showLinks settings \<longrightarrow>
      buildStatsString toLocaleString stats settings =
        (js ''URLs: '' @ toLocaleString (urls stats)) @ js '' | '' @
        (js ''Links: '' @ toLocaleString (links stats))) \<and>
   (showUrls settings \<noteq> showLinks settings \<and>
    chr16 CHR ''|'' \<notin> set (toLocaleString (urls stats)) \<and>
    chr16 CHR ''|'' \<notin> set (toLocaleString (links stats)) \<longrightarrow>
      \<not> String_includes (js '' | '') (buildStatsString toLocaleString stats settings))"
proof -
  have off: "\<not> showUrls settings \<Longrightarrow> \<not> showLinks settings \<Longrightarrow>
      buildStatsString toLocaleString stats settings = []"
    by (simp add: buildStatsString_def)
  have u: "showUrls settings \<Longrightarrow> \<not> showLinks settings \<Longrightarrow>
      buildStatsString toLocaleString stats settings =
        js ''URLs: '' @ toLocaleString (urls stats)"
    by (simp add: buildStatsString_def formatNumber_def)
  have l: "\<not> showUrls settings \<Longrightarrow> showLinks settings \<Longrightarrow>
      buildStatsString toLocaleString stats settings =
        js ''Links: '' @ toLocaleString (links stats)"
    by (simp add: buildStatsString_def formatNumber_def)
  have both: "showUrls settings \<Longrightarrow> showLinks settings \<Longrightarrow>
      buildStatsString toLocaleString stats settings =
        (js ''URLs: '' @ toLocaleString (urls stats)) @ js '' | '' @
        (js ''Links: '' @ toLocaleString (links stats))"
    by (simp add: buildStatsString_def formatNumber_def)
  have one: "\<not> String_includes (js '' | '') (buildStatsString toLocaleString stats settings)"
    if "showUrls settings \<noteq> showLinks settings"
      and nu: "chr16 CHR ''|'' \<notin> set (toLocaleString (urls stats))"
      and nl: "chr16 CHR ''|'' \<notin> set (toLocaleString (links stats))"
  proof (cases "showUrls settings")
    case True
    with that(1) have "\<not> showLinks settings" by simp
    with True u have "buildStatsString toLocaleString stats settings =
        js ''URLs: '' @ toLocaleString (urls stats)" by simp
    moreover have "chr16 CHR ''|'' \<notin> set (js ''URLs: '' @ toLocaleString (urls stats))"
      using nu label_no_bar by simp
    ultimately show ?thesis using no_bar_no_separator by simp
  next
    case False
    with that(1) have "showLinks settings" by simp
    with False l have "buildStatsString toLocaleString stats settings =
        js ''Links: '' @ toLocaleString (links stats)" by simp
    moreover have "chr16 CHR ''|'' \<notin> set (js ''Links: '' @ toLocaleString (links stats))"
      using nl label_no_bar by simp
    ultimately show ?thesis using no_bar_no_separator by simp
  qed
  from off u l both one show ?thesis by blast
qed

theorem C5_buildStatsString_witness:
  "buildStatsString toLocaleString_enUS \<lparr>urls = 12000, links = 7\<rparr>
     (DEFAULT_SETTINGS\<lparr>showUrls := False, showLinks := False\<rparr>) = [] \<and>
   buildStatsString toLocaleString_enUS \<lparr>urls = 12000, links = 7\<rparr>
     (DEFAULT_SETTINGS\<lparr>showLinks := False\<rparr>) = js ''URLs: 12,000'' \<and>
   buildStatsString toLocaleString_enUS \<lparr>urls = 12000, links = 7\<rparr>
     (DEFAULT_SETTINGS\<lparr>showUrls := False\<rparr>) = js ''Links: 7'' \<and>
   buildStatsString toLocaleString_enUS \<lparr>urls = 12000, links = 7\<rparr> DEFAULT_SETTINGS =
     js ''URLs: 12,000 | Links: 7'' \<and>
   \<not> String_includes (js '' | '')
       (buildStatsString toLocaleString_enUS \<lparr>urls = 12000, links = 7\<rparr>
          (DEFAULT_SETTINGS\<lparr>showLinks := False\<rparr>))"
proof -
  let ?st = "\<lparr>urls = 12000, links = 7\<rparr>"
  have a: "toLocaleString_enUS (urls ?st) = js ''12,000''"
    by (simp add: toLocaleString_enUS_def decimalDigits.simps js_def chr16_def)
  have b: "toLocaleString_enUS (links ?st) = js ''7''"
    by (simp add: toLocaleString_enUS_def decimalDigits.simps js_def chr16_def)
  have nb: "chr16 CHR ''|'' \<notin> set (js ''12,000'')" "chr16 CHR ''|'' \<notin> set (js ''7'')"
    by (simp_all add: js_def chr16_def)
  have sh: "showUrls DEFAULT_SETTINGS" "showLinks DEFAULT_SETTINGS"
    by (simp_all add: DEFAULT_SETTINGS_def)
  note t = C5_buildStatsString [where toLocaleString = toLocaleString_enUS and stats = ?st]
  have 1: "buildStatsString toLocaleString_enUS ?st
     (DEFAULT_SETTINGS\<lparr>showUrls := False, showLinks := False\<rparr>) = []"
    using t [of "DEFAULT_SETTINGS\<lparr>showUrls := False, showLinks := False\<rparr>"] by simp
  have 2: "buildStatsString toLocaleString_enUS ?st
     (DEFAULT_SETTINGS\<lparr>showLinks := False\<rparr>) = js ''URLs: 12,000''"
    using t [of "DEFAULT_SETTINGS\<lparr>showLinks := False\<rparr>"] sh
    unfolding a b by (simp add: js_def)
  have 3: "buildStatsString toLocaleString_enUS ?st
     (DEFAULT_SETTINGS\<lparr>showUrls := False\<rparr>) = js ''Links: 7''"
    using t [of "DEFAULT_SETTINGS\<lparr>showUrls := False\<rparr>"] sh
    unfolding a b by (simp add: js_def)
  have 4: "buildStatsString toLocaleString_enUS ?st DEFAULT_SETTINGS =
     js ''URLs: 12,000 | Links: 7''"
    using t [of "DEFAULT_SETTINGS"] sh
    unfolding a b by (simp add: js_def)
  have 5: "\<not> String_includes (js '' | '')
       (buildStatsString toLocaleString_enUS ?st (DEFAULT_SETTINGS\<lparr>showLinks := False\<rparr>))"
  proof -
    let ?s = "DEFAULT_SETTINGS\<lparr>showLinks := False\<rparr>"
    have hyp: "showUrls ?s \<noteq> showLinks ?s \<and>
        chr16 CHR ''|'' \<notin> set (toLocaleString_enUS (urls ?st)) \<and>
        chr16 CHR ''|'' \<notin> set (toLocaleString_enUS (links ?st))"
      unfolding a b using sh nb by simp
    from t [of ?s] hyp show ?thesis by blast
  qed
  from 1 2 3 4 5 show ?thesis by blast
qed

section \<open>The URL count\<close>

text \<open>
  A URL token: \<^verbatim>\<open>http://\<close> or \<^verbatim>\<open>https://\<close>, then a run, not empty, of code units that
  are neither white space nor \<^verbatim>\<open>)\<close>, \<^verbatim>\<open>]\<close>, \<^verbatim>\<open>>\<close>. A match ends where the input
  ends or such a code unit stands.
\<close>

definition isUrlToken :: "jsstring \<Rightarrow> bool" where
  "isUrlToken u \<longleftrightarrow>
     (case matchLit (js ''https://'') u of
        Some b \<Rightarrow> b \<noteq> [] \<and> list_all urlChar b
      | None \<Rightarrow>
          (case matchLit (js ''http://'') u of
             Some b \<Rightarrow> b \<noteq> [] \<and> list_all urlChar b
           | None \<Rightarrow> False))"

definition urlBoundary :: "jsstring \<Rightarrow> bool" where
  "urlBoundary rest \<longleftrightarrow> (case rest of [] \<Rightarrow> True | c # cs \<Rightarrow> \<not> urlChar c)"

lemma takeWhile_run:
  "list_all P b \<Longrightarrow> (case rest of [] \<Rightarrow> True | c # cs \<Rightarrow> \<not> P c) \<Longrightarrow>
   takeWhile P (b @ rest) = b \<and> dropWhile P (b @ rest) = rest"
  by (induction b) (auto split: list.splits)

lemma urlTail_run:
  assumes "b \<noteq> []" "list_all urlChar b" "urlBoundary rest"
  shows "urlTail (js ''://'' @ b @ rest) = Some (js ''://'' @ b, rest)"
proof -
  have run: "takeWhile urlChar (b @ rest) = b \<and> dropWhile urlChar (b @ rest) = rest"
    using assms(2,3) by (intro takeWhile_run) (simp_all add: urlBoundary_def)
  obtain x xs where b: "b = x # xs" using assms(1) by (cases b) auto
  have "(case takeWhile urlChar (b @ rest) of
           [] \<Rightarrow> None
         | y # ys \<Rightarrow> Some (js ''://'' @ y # ys, dropWhile urlChar (b @ rest))) =
        Some (js ''://'' @ b, rest)"
    by (subst run [THEN conjunct1], subst run [THEN conjunct2]) (simp add: b)
  then show ?thesis
    by (simp only: urlTail_def matchLit_append option.case)
qed

lemma no_s_before_colon:
  "(case js ''://'' @ t of
      [] \<Rightarrow> None
    | c # r' \<Rightarrow> if c = chr16 CHR ''s'' then urlTail r' else None) = None"
  by (simp add: js_def chr16_def)

lemma urlRegex_at_token:
  assumes "isUrlToken u" "urlBoundary rest"
  shows "urlRegex_at (u @ rest) = Some (u, rest)"
proof (cases "matchLit (js ''https://'') u")
  case (Some b)
  with assms(1) have b: "b \<noteq> []" "list_all urlChar b" by (simp_all add: isUrlToken_def)
  have u: "u = js ''https://'' @ b" by (rule matchLit_Some [OF Some])
  have "u @ rest = js ''http'' @ chr16 CHR ''s'' # (js ''://'' @ b @ rest)"
    unfolding u by (simp add: js_def)
  then have "urlRegex_at (u @ rest) = Some (js ''https'' @ js ''://'' @ b, rest)"
    unfolding urlRegex_at_def
    by (simp add: matchLit_append urlTail_run [OF b assms(2)])
  then show ?thesis unfolding u by (simp add: js_def)
next
  case None
  with assms(1) obtain b where m: "matchLit (js ''http://'') u = Some b"
    and b: "b \<noteq> []" "list_all urlChar b"
    by (auto simp: isUrlToken_def split: option.splits)
  have u: "u = js ''http://'' @ b" by (rule matchLit_Some [OF m])
  have "u @ rest = js ''http'' @ (js ''://'' @ b @ rest)"
    unfolding u by (simp add: js_def)
  then have "urlRegex_at (u @ rest) = Some (js ''http'' @ js ''://'' @ b, rest)"
    unfolding urlRegex_at_def
    by (simp add: matchLit_append no_s_before_colon urlTail_run [OF b assms(2)])
  then show ?thesis unfolding u by (simp add: js_def)
qed

lemma urlRegex_exec_token:
  assumes "isUrlToken u" "urlBoundary rest"
  shows "urlRegex_exec (u @ rest) = Some (u, rest)"
proof -
  from urlRegex_at_token [OF assms] have at: "urlRegex_at (u @ rest) = Some (u, rest)" .
  show ?thesis
  proof (cases "u @ rest")
    case Nil
    with at show ?thesis by simp
  next
    case (Cons c cs)
    with at show ?thesis by simp
  qed
qed

lemma urlRegex_matches_token:
  assumes "isUrlToken u" "urlBoundary rest"
  shows "urlRegex_matches (u @ rest) = u # urlRegex_matches rest"
  by (subst urlRegex_matches.simps) (simp add: urlRegex_exec_token [OF assms])

lemma urlRegex_at_not_h:
  "c \<noteq> chr16 CHR ''h'' \<Longrightarrow> urlRegex_at (c # s) = None"
  by (simp add: urlRegex_at_def js_def)

lemma urlRegex_matches_skip:
  assumes "c \<noteq> chr16 CHR ''h''"
  shows "urlRegex_matches (c # s) = urlRegex_matches s"
  by (subst urlRegex_matches.simps, subst (2) urlRegex_matches.simps)
    (simp add: urlRegex_at_not_h [OF assms])

lemma urlRegex_matches_Nil: "urlRegex_matches [] = []"
  by (subst urlRegex_matches.simps) (simp add: urlRegex_at_def js_def)

lemma urlRegex_matches_two:
  assumes "isUrlToken u" "isUrlToken v"
  shows "urlRegex_matches (u @ js '' '' @ v) = [u, v]"
proof -
  have sp: "urlBoundary (js '' '' @ v)"
    by (simp add: urlBoundary_def js_def chr16_def urlChar_def isWhiteSpace_def)
  have "urlRegex_matches (u @ js '' '' @ v) = u # urlRegex_matches (js '' '' @ v)"
    by (rule urlRegex_matches_token [OF assms(1) sp])
  also have "urlRegex_matches (js '' '' @ v) = urlRegex_matches (v @ [])"
    using urlRegex_matches_skip [of "chr16 CHR '' ''" v] by (simp add: js_def chr16_def)
  also have "\<dots> = v # urlRegex_matches []"
    by (rule urlRegex_matches_token [OF assms(2)]) (simp add: urlBoundary_def)
  finally show ?thesis by (simp add: urlRegex_matches_Nil)
qed

lemma isUrlToken_no_frontmatter:
  assumes "isUrlToken u"
  shows "replaceFrontmatter (u @ rest) = u @ rest"
proof -
  from assms obtain t where "u = js ''http'' @ t"
    by (auto simp: isUrlToken_def js_def split: option.splits list.splits if_splits
        dest!: matchLit_Some)
  then show ?thesis
    by (simp add: replaceFrontmatter_def frontmatterRegex_exec_def js_def chr16_def)
qed


lemma urlTail_Some_shape:
  assumes "urlTail s = Some (m, rest)"
  shows "\<exists>body. m = js ''://'' @ body \<and> body \<noteq> [] \<and> list_all urlChar body \<and> urlBoundary rest"
proof -
  from assms obtain r where r: "matchLit (js ''://'') s = Some r"
    by (auto simp: urlTail_def split: option.splits)
  with assms have "(case takeWhile urlChar r of
                      [] \<Rightarrow> None
                    | b # bs \<Rightarrow> Some (js ''://'' @ b # bs, dropWhile urlChar r)) = Some (m, rest)"
    by (simp add: urlTail_def)
  then have m: "m = js ''://'' @ takeWhile urlChar r" and ne: "takeWhile urlChar r \<noteq> []"
    and rest: "rest = dropWhile urlChar r"
    by (auto split: list.splits)
  have "list_all urlChar (takeWhile urlChar r)"
    by (auto simp: list_all_iff dest: set_takeWhileD)
  moreover have "urlBoundary (dropWhile urlChar r)"
    unfolding urlBoundary_def by (induction r) auto
  ultimately show ?thesis using m ne rest by blast
qed

lemma isUrlToken_https:
  assumes "body \<noteq> []" "list_all urlChar body"
  shows "isUrlToken (js ''https'' @ js ''://'' @ body)"
proof -
  have eq: "js ''https'' @ js ''://'' @ body = js ''https://'' @ body"
    by (simp add: js_def)
  show ?thesis
    unfolding eq isUrlToken_def matchLit_append using assms by simp
qed

lemma isUrlToken_http:
  assumes "body \<noteq> []" "list_all urlChar body"
  shows "isUrlToken (js ''http'' @ js ''://'' @ body)"
proof -
  have 1: "matchLit (js ''https://'') (js ''http'' @ js ''://'' @ body) = None"
    by (simp add: js_def chr16_def)
  have eq: "js ''http'' @ js ''://'' @ body = js ''http://'' @ body"
    by (simp add: js_def)
  have 2: "matchLit (js ''http://'') (js ''http'' @ js ''://'' @ body) = Some body"
    unfolding eq by (rule matchLit_append)
  show ?thesis unfolding isUrlToken_def 1 2 using assms by simp
qed

lemma urlRegex_at_Some_token:
  assumes "urlRegex_at s = Some (m, rest)"
  shows "isUrlToken m \<and> urlBoundary rest"
proof -
  from assms obtain r where r: "matchLit (js ''http'') s = Some r"
    by (auto simp: urlRegex_at_def split: option.splits)
  show ?thesis
  proof (cases "case r of [] \<Rightarrow> None | c # r' \<Rightarrow> if c = chr16 CHR ''s'' then urlTail r' else None")
    case None
    with assms r obtain m' where t: "urlTail r = Some (m', rest)" and m: "m = js ''http'' @ m'"
      by (auto simp: urlRegex_at_def split: option.splits)
    from urlTail_Some_shape [OF t] m show ?thesis
      by (auto intro: isUrlToken_http)
  next
    case (Some mr)
    obtain m' rest' where mr: "mr = (m', rest')" by (cases mr)
    from Some mr obtain r' where t: "urlTail r' = Some (m', rest')"
      by (auto split: list.splits if_splits)
    from assms r Some mr have "m = js ''https'' @ m'" "rest = rest'"
      by (auto simp: urlRegex_at_def)
    with urlTail_Some_shape [OF t] show ?thesis
      by (auto intro: isUrlToken_https)
  qed
qed

lemma urlRegex_exec_Some_token:
  "urlRegex_exec s = Some (m, rest) \<Longrightarrow> isUrlToken m"
  by (induction s) (auto dest: urlRegex_at_Some_token split: option.splits)

lemma urlRegex_matches_tokens:
  "m \<in> set (urlRegex_matches s) \<Longrightarrow> isUrlToken m"
proof (induction s rule: urlRegex_matches.induct)
  case (1 s)
  show ?case
  proof (cases "urlRegex_exec s")
    case None
    with "1.prems" show ?thesis by (subst (asm) urlRegex_matches.simps) simp
  next
    case (Some mr)
    obtain m' rest where mr: "mr = (m', rest)" by (cases mr)
    from "1.prems" Some mr have "m = m' \<or> m \<in> set (urlRegex_matches rest)"
      by (subst (asm) urlRegex_matches.simps) simp
    then show ?thesis
    proof
      assume "m = m'"
      with Some mr show ?thesis by (auto dest: urlRegex_exec_Some_token)
    next
      assume "m \<in> set (urlRegex_matches rest)"
      with "1.IH" Some mr show ?thesis by simp
    qed
  qed
qed

lemma calculateStats_urls:
  "urls (calculateStats content) = card (set (urlRegex_matches (replaceFrontmatter content)))"
proof -
  have "(case match_urlRegex s of None \<Rightarrow> [] | Some ms \<Rightarrow> ms) = urlRegex_matches s" for s
    by (simp add: match_urlRegex_def split: list.splits)
  then show ?thesis
    by (simp add: calculateStats_def Let_def Set_size_Set_new)
qed

text \<open>
  Claim C3: the URL count is the number of distinct matches of the URL pattern in the
  text left after the metadata block; every match is a URL token; a token written
  twice counts once, and two different tokens, such as \<^verbatim>\<open>http://x\<close> and \<^verbatim>\<open>http://x/\<close>
  or \<^verbatim>\<open>http://x\<close> and \<^verbatim>\<open>http://X\<close>, count as two.
\<close>

theorem C3_url_count:
  "urls (calculateStats content) =
     card (set (urlRegex_matches (replaceFrontmatter content))) \<and>
   (\<forall>m \<in> set (urlRegex_matches (replaceFrontmatter content)). isUrlToken m) \<and>
   (isUrlToken u \<longrightarrow> urls (calculateStats (u @ js '' '' @ u)) = 1) \<and>
   (isUrlToken u \<and> isUrlToken v \<and> u \<noteq> v \<longrightarrow>
      urls (calculateStats (u @ js '' '' @ v)) = 2)"
proof -
  have two: "urls (calculateStats (a @ js '' '' @ b)) = card {a, b}"
    if "isUrlToken a" "isUrlToken b" for a b
    using that
    by (simp add: calculateStats_urls isUrlToken_no_frontmatter urlRegex_matches_two)
  have "isUrlToken u \<Longrightarrow> urls (calculateStats (u @ js '' '' @ u)) = 1"
    using two [of u u] by simp
  moreover have "isUrlToken u \<Longrightarrow> isUrlToken v \<Longrightarrow> u \<noteq> v \<Longrightarrow>
      urls (calculateStats (u @ js '' '' @ v)) = 2"
    using two [of u v] by simp
  ultimately show ?thesis
    using calculateStats_urls urlRegex_matches_tokens by blast
qed

theorem C3_url_count_witness:
  "isUrlToken (js ''http://x'') \<and> isUrlToken (js ''http://x/'') \<and>
   isUrlToken (js ''http://X'') \<and>
   urls (calculateStats (js ''http://x'' @ js '' '' @ js ''http://x'')) = 1 \<and>
   urls (calculateStats (js ''http://x'' @ js '' '' @ js ''http://x/'')) = 2 \<and>
   urls (calculateStats (js ''http://x'' @ js '' '' @ js ''http://X'')) = 2 \<and>
   urlRegex_matches (replaceFrontmatter (js ''http://x http://x'')) =
     [js ''http://x'', js ''http://x'']"
proof -
  have x: "isUrlToken (js ''http://x'')" by code_simp
  have xs: "isUrlToken (js ''http://x/'')" by code_simp
  have X: "isUrlToken (js ''http://X'')" by code_simp
  have ne: "js ''http://x'' \<noteq> js ''http://x/''" "js ''http://x'' \<noteq> js ''http://X''"
    by (simp_all add: js_def chr16_def)
  have m: "urlRegex_matches (replaceFrontmatter (js ''http://x http://x'')) =
     [js ''http://x'', js ''http://x'']" by code_simp
  from C3_url_count [of "js ''http://x http://x''" "js ''http://x''" "js ''http://x/''"]
    C3_url_count [of "[]" "js ''http://x''" "js ''http://X''"]
    x xs X ne m
  show ?thesis by blast
qed

section \<open>The reference count\<close>

text \<open>The values of \<^verbatim>\<open>match[1]\<close> over the iterations of the loop, in order.\<close>

function wikilinkCaptures :: "jsstring \<Rightarrow> jsstring list" where
  "wikilinkCaptures s =
     (case wikilinkRegex_exec s of
        None \<Rightarrow> []
      | Some (m1, rest) \<Rightarrow> m1 # wikilinkCaptures rest)"
  by pat_completeness auto
termination
  by (relation "measure length") (auto dest: wikilinkRegex_exec_shorter)

declare wikilinkCaptures.simps [simp del]

text \<open>
  A target: a run, not empty, of code units other than \<^verbatim>\<open>]\<close>, \<^verbatim>\<open>|\<close> and \<^verbatim>\<open>#\<close>. A
  capture ends where the input ends or one of the three stands.
\<close>

definition isTarget :: "jsstring \<Rightarrow> bool" where
  "isTarget t \<longleftrightarrow> t \<noteq> [] \<and> list_all linkChar t"

definition linkBoundary :: "jsstring \<Rightarrow> bool" where
  "linkBoundary rest \<longleftrightarrow> (case rest of [] \<Rightarrow> True | c # cs \<Rightarrow> \<not> linkChar c)"

lemma wikilinkLoop_captures:
  "wikilinkLoop s linkSet = foldl (\<lambda>S x. Set_add x S) linkSet (wikilinkCaptures s)"
proof (induction s linkSet rule: wikilinkLoop.induct)
  case (1 s linkSet)
  show ?case
  proof (cases "wikilinkRegex_exec s")
    case None
    then show ?thesis
      by (subst wikilinkLoop.simps, subst wikilinkCaptures.simps) simp
  next
    case (Some mr)
    obtain m1 rest where mr: "mr = (m1, rest)" by (cases mr)
    from "1.IH" [OF Some [unfolded mr] refl] Some mr show ?thesis
      by (subst wikilinkLoop.simps, subst wikilinkCaptures.simps) simp
  qed
qed

lemma calculateStats_links:
  "links (calculateStats content) =
     card (set (wikilinkCaptures (replaceFrontmatter content)))"
  using Set_size_Set_new [of "wikilinkCaptures (replaceFrontmatter content)"]
  by (simp add: calculateStats_def Let_def wikilinkLoop_captures Set_new_def)

lemma dropWhile_boundary:
  "case dropWhile P xs of [] \<Rightarrow> True | c # cs \<Rightarrow> \<not> P c"
  by (induction xs) auto

lemma wikilinkRegex_at_shape:
  assumes "wikilinkRegex_at s = Some (m1, rest)"
  shows "s = js ''[['' @ m1 @ rest \<and> isTarget m1 \<and> linkBoundary rest"
proof -
  from assms obtain r where r: "matchLit (js ''[['') s = Some r"
    by (auto simp: wikilinkRegex_at_def split: option.splits)
  with assms have "(case takeWhile linkChar r of
                      [] \<Rightarrow> None
                    | b # bs \<Rightarrow> Some (b # bs, dropWhile linkChar r)) = Some (m1, rest)"
    by (simp add: wikilinkRegex_at_def)
  then have tw: "takeWhile linkChar r = m1" and ne: "m1 \<noteq> []"
    and dw: "dropWhile linkChar r = rest"
    by (auto split: list.splits)
  have "list_all linkChar (takeWhile linkChar r)"
    by (auto simp: list_all_iff dest: set_takeWhileD)
  then have t: "isTarget m1" unfolding tw using ne by (simp add: isTarget_def)
  have b: "linkBoundary rest"
    unfolding linkBoundary_def dw [symmetric] by (rule dropWhile_boundary)
  from wikilinkRegex_at_Some [OF assms] have "s = js ''[['' @ m1 @ rest" by blast
  with t b show ?thesis by blast
qed

lemma wikilinkRegex_exec_shape:
  "wikilinkRegex_exec s = Some (m1, rest) \<Longrightarrow>
   (\<exists>pre. s = pre @ js ''[['' @ m1 @ rest) \<and> isTarget m1 \<and> linkBoundary rest"
proof (induction s)
  case Nil
  then show ?case using wikilinkRegex_at_shape [of "[]" m1 rest] by auto
next
  case (Cons c cs)
  show ?case
  proof (cases "wikilinkRegex_at (c # cs)")
    case None
    with Cons.prems have "wikilinkRegex_exec cs = Some (m1, rest)" by simp
    from Cons.IH [OF this] obtain pre where "cs = pre @ js ''[['' @ m1 @ rest"
      and *: "isTarget m1" "linkBoundary rest" by blast
    then have "c # cs = (c # pre) @ js ''[['' @ m1 @ rest" by simp
    with * show ?thesis by blast
  next
    case (Some mr)
    with Cons.prems have "wikilinkRegex_at (c # cs) = Some (m1, rest)" by simp
    from wikilinkRegex_at_shape [OF this] have "c # cs = [] @ js ''[['' @ m1 @ rest"
      and *: "isTarget m1" "linkBoundary rest" by simp_all
    then show ?thesis by blast
  qed
qed

lemma wikilinkCaptures_targets:
  "m \<in> set (wikilinkCaptures s) \<Longrightarrow> isTarget m"
proof (induction s rule: wikilinkCaptures.induct)
  case (1 s)
  show ?case
  proof (cases "wikilinkRegex_exec s")
    case None
    with "1.prems" show ?thesis by (subst (asm) wikilinkCaptures.simps) simp
  next
    case (Some mr)
    obtain m1 rest where mr: "mr = (m1, rest)" by (cases mr)
    from "1.prems" Some mr have "m = m1 \<or> m \<in> set (wikilinkCaptures rest)"
      by (subst (asm) wikilinkCaptures.simps) simp
    then show ?thesis
    proof
      assume "m = m1"
      with Some mr show ?thesis by (auto dest: wikilinkRegex_exec_shape)
    next
      assume "m \<in> set (wikilinkCaptures rest)"
      with "1.IH" Some mr show ?thesis by simp
    qed
  qed
qed


lemma wikilinkRegex_at_target:
  assumes "isTarget t" "linkBoundary rest"
  shows "wikilinkRegex_at (js ''[['' @ t @ rest) = Some (t, rest)"
proof -
  have run: "takeWhile linkChar (t @ rest) = t \<and> dropWhile linkChar (t @ rest) = rest"
    using assms by (intro takeWhile_run) (simp_all add: isTarget_def linkBoundary_def)
  obtain x xs where t: "t = x # xs" using assms(1) by (cases t) (auto simp: isTarget_def)
  have "(case takeWhile linkChar (t @ rest) of
           [] \<Rightarrow> None
         | y # ys \<Rightarrow> Some (y # ys, dropWhile linkChar (t @ rest))) = Some (t, rest)"
    by (subst run [THEN conjunct1], subst run [THEN conjunct2]) (simp add: t)
  then show ?thesis
    by (simp only: wikilinkRegex_at_def matchLit_append option.case)
qed

lemma wikilinkRegex_exec_target:
  assumes "isTarget t" "linkBoundary rest"
  shows "wikilinkRegex_exec (js ''[['' @ t @ rest) = Some (t, rest)"
proof -
  have "js ''[['' @ t @ rest = chr16 CHR ''['' # chr16 CHR ''['' # t @ rest"
    by (simp add: js_def)
  with wikilinkRegex_at_target [OF assms] show ?thesis by simp
qed

lemma wikilinkCaptures_target:
  assumes "isTarget t" "linkBoundary rest"
  shows "wikilinkCaptures (js ''[['' @ t @ rest) = t # wikilinkCaptures rest"
  by (subst wikilinkCaptures.simps) (simp add: wikilinkRegex_exec_target [OF assms])

lemma wikilinkRegex_at_not_bracket:
  "c \<noteq> chr16 CHR ''['' \<Longrightarrow> wikilinkRegex_at (c # s) = None"
  by (simp add: wikilinkRegex_at_def js_def)

lemma wikilinkRegex_exec_skip:
  "chr16 CHR ''['' \<notin> set pre \<Longrightarrow> wikilinkRegex_exec (pre @ s) = wikilinkRegex_exec s"
  by (induction pre) (auto simp: wikilinkRegex_at_not_bracket)

lemma wikilinkCaptures_skip:
  assumes "chr16 CHR ''['' \<notin> set pre"
  shows "wikilinkCaptures (pre @ s) = wikilinkCaptures s"
  by (subst wikilinkCaptures.simps, subst (2) wikilinkCaptures.simps)
    (simp add: wikilinkRegex_exec_skip [OF assms])

lemma wikilinkCaptures_Nil: "wikilinkCaptures [] = []"
  by (subst wikilinkCaptures.simps) (simp add: wikilinkRegex_at_def js_def)

lemma wikilinkRegex_at_empty_target:
  assumes "\<not> linkChar d"
  shows "wikilinkRegex_at (js ''[['' @ d # rest) = None"
  using assms by (simp add: wikilinkRegex_at_def matchLit_append)

lemma not_linkChar_not_bracket: "\<not> linkChar d \<Longrightarrow> d \<noteq> chr16 CHR ''[''"
  by (auto simp: linkChar_def chr16_def)

lemma wikilinkRegex_exec_empty_target:
  assumes "\<not> linkChar d"
  shows "wikilinkRegex_exec (js ''[['' @ d # rest) = wikilinkRegex_exec rest"
proof -
  have eq: "js ''[['' @ d # rest = chr16 CHR ''['' # chr16 CHR ''['' # d # rest"
    by (simp add: js_def)
  have 0: "wikilinkRegex_at (chr16 CHR ''['' # chr16 CHR ''['' # d # rest) = None"
    using wikilinkRegex_at_empty_target [OF assms, of rest] unfolding eq .
  have 1: "wikilinkRegex_at (chr16 CHR ''['' # d # rest) = None"
    using not_linkChar_not_bracket [OF assms] by (simp add: wikilinkRegex_at_def js_def)
  have 2: "wikilinkRegex_at (d # rest) = None"
    by (rule wikilinkRegex_at_not_bracket [OF not_linkChar_not_bracket [OF assms]])
  have 3: "wikilinkRegex_exec (d # rest) = wikilinkRegex_exec rest"
    by (simp add: 2)
  show ?thesis unfolding eq by (simp add: 0 1 2 3)
qed

lemma wikilinkCaptures_empty_target:
  assumes "\<not> linkChar d"
  shows "wikilinkCaptures (js ''[['' @ d # rest) = wikilinkCaptures rest"
  by (subst wikilinkCaptures.simps, subst (2) wikilinkCaptures.simps)
    (simp add: wikilinkRegex_exec_empty_target [OF assms])

lemma replaceFrontmatter_not_dash:
  "c \<noteq> chr16 CHR ''-'' \<Longrightarrow> replaceFrontmatter (c # s) = c # s"
  by (simp add: replaceFrontmatter_def frontmatterRegex_exec_def js_def)


text \<open>
  Claim C4: the reference count is the number of distinct captures of the reference
  pattern in the text left after the metadata block; a capture is the target that
  stands between \<^verbatim>\<open>[[\<close> and the first \<^verbatim>\<open>]\<close>, \<^verbatim>\<open>|\<close> or \<^verbatim>\<open>#\<close> after it (or the end of
  the text); a target written with an alias, with a section and plain gives the one
  entry of that target, and counts once.
\<close>

theorem C4_link_count:
  "links (calculateStats content) =
     card (set (wikilinkCaptures (replaceFrontmatter content))) \<and>
   (wikilinkRegex_exec s = Some (m1, rest) \<longrightarrow>
      (\<exists>pre. s = pre @ js ''[['' @ m1 @ rest) \<and> isTarget m1 \<and> linkBoundary rest) \<and>
   (isTarget t \<and> chr16 CHR ''['' \<notin> set alias \<and> chr16 CHR ''['' \<notin> set section \<longrightarrow>
      wikilinkCaptures
        (js ''[['' @ t @ js ''|'' @ alias @ js '']] '' @
         js ''[['' @ t @ js ''#'' @ section @ js '']] '' @
         js ''[['' @ t @ js '']]'') = [t, t, t] \<and>
      links (calculateStats
        (js ''[['' @ t @ js ''|'' @ alias @ js '']] '' @
         js ''[['' @ t @ js ''#'' @ section @ js '']] '' @
         js ''[['' @ t @ js '']]'')) = 1)"
proof -
  have three: "wikilinkCaptures
        (js ''[['' @ t @ js ''|'' @ alias @ js '']] '' @
         js ''[['' @ t @ js ''#'' @ section @ js '']] '' @
         js ''[['' @ t @ js '']]'') = [t, t, t]"
    if t: "isTarget t" and a: "chr16 CHR ''['' \<notin> set alias"
      and s: "chr16 CHR ''['' \<notin> set section"
  proof -
    let ?r3 = "js ''[['' @ t @ js '']]''"
    let ?r2 = "js ''[['' @ t @ (js ''#'' @ section @ js '']] '') @ ?r3"
    have b1: "linkBoundary ((js ''|'' @ alias @ js '']] '') @ ?r2)"
      and b2: "linkBoundary ((js ''#'' @ section @ js '']] '') @ ?r3)"
      and b3: "linkBoundary (js '']]'' @ [])"
      by (simp_all add: linkBoundary_def js_def linkChar_def)
    have n1: "chr16 CHR ''['' \<notin> set (js ''|'' @ alias @ js '']] '')"
      and n2: "chr16 CHR ''['' \<notin> set (js ''#'' @ section @ js '']] '')"
      and n3: "chr16 CHR ''['' \<notin> set (js '']]'')"
      using a s by (simp_all add: js_def chr16_def)
    have "wikilinkCaptures (js ''[['' @ t @ (js ''|'' @ alias @ js '']] '') @ ?r2) =
            t # wikilinkCaptures ?r2"
      by (simp only: wikilinkCaptures_target [OF t b1] wikilinkCaptures_skip [OF n1])
    also have "wikilinkCaptures ?r2 = t # wikilinkCaptures ?r3"
      by (simp only: wikilinkCaptures_target [OF t b2] wikilinkCaptures_skip [OF n2])
    also have "wikilinkCaptures ?r3 = t # wikilinkCaptures (js '']]'' @ [])"
      using wikilinkCaptures_target [OF t b3] by simp
    also have "wikilinkCaptures (js '']]'' @ []) = []"
      by (simp only: wikilinkCaptures_skip [OF n3] wikilinkCaptures_Nil)
    finally show ?thesis by simp
  qed
  have one: "links (calculateStats
        (js ''[['' @ t @ js ''|'' @ alias @ js '']] '' @
         js ''[['' @ t @ js ''#'' @ section @ js '']] '' @
         js ''[['' @ t @ js '']]'')) = 1"
    if t: "isTarget t" and a: "chr16 CHR ''['' \<notin> set alias"
      and s: "chr16 CHR ''['' \<notin> set section"
  proof -
    let ?doc = "js ''[['' @ t @ js ''|'' @ alias @ js '']] '' @
         js ''[['' @ t @ js ''#'' @ section @ js '']] '' @
         js ''[['' @ t @ js '']]''"
    have "?doc = chr16 CHR ''['' # tl ?doc" by (simp add: js_def)
    moreover have "chr16 CHR ''['' \<noteq> chr16 CHR ''-''" by (simp add: chr16_def)
    ultimately have "replaceFrontmatter ?doc = ?doc"
      using replaceFrontmatter_not_dash by metis
    then show ?thesis
      unfolding calculateStats_links using three [OF that] by simp
  qed
  from calculateStats_links wikilinkRegex_exec_shape three one show ?thesis by blast
qed

theorem C4_link_count_witness:
  "isTarget (js ''Page'') \<and>
   wikilinkCaptures (js ''[[Page|Alias]] [[Page#Section]] [[Page]]'') =
     [js ''Page'', js ''Page'', js ''Page''] \<and>
   links (calculateStats (js ''[[Page|Alias]] [[Page#Section]] [[Page]]'')) = 1 \<and>
   wikilinkRegex_exec (js ''See [[Page|Alias]].'') = Some (js ''Page'', js ''|Alias]].'') \<and>
   linkBoundary (js ''|Alias]].'')"
proof -
  have t: "isTarget (js ''Page'')" by code_simp
  have n: "chr16 CHR ''['' \<notin> set (js ''Alias'')" "chr16 CHR ''['' \<notin> set (js ''Section'')"
    by (simp_all add: js_def chr16_def)
  have e: "wikilinkRegex_exec (js ''See [[Page|Alias]].'') = Some (js ''Page'', js ''|Alias]].'')"
    by code_simp
  have d: "js ''[['' @ js ''Page'' @ js ''|'' @ js ''Alias'' @ js '']] '' @
         js ''[['' @ js ''Page'' @ js ''#'' @ js ''Section'' @ js '']] '' @
         js ''[['' @ js ''Page'' @ js '']]'' = js ''[[Page|Alias]] [[Page#Section]] [[Page]]''"
    by (simp add: js_def)
  from C4_link_count [of "[]" "js ''See [[Page|Alias]].''" "js ''Page''" "js ''|Alias]].''"
      "js ''Page''" "js ''Alias''" "js ''Section''"] t n e
  show ?thesis unfolding d by blast
qed

text \<open>
  Claim C10: a reference with an empty target adds nothing to the reference count. No
  capture is the empty string; the pattern does not match where \<^verbatim>\<open>[[\<close> is followed at
  once by \<^verbatim>\<open>]\<close>, \<^verbatim>\<open>|\<close> or \<^verbatim>\<open>#\<close>, and the search goes on after that code unit; the
  documents \<^verbatim>\<open>[[]]\<close>, \<^verbatim>\<open>[[|Alias]]\<close> and \<^verbatim>\<open>[[#Section]]\<close> count no reference.
\<close>

theorem C10_empty_target:
  "[] \<notin> set (wikilinkCaptures s) \<and>
   wikilinkRegex_at (js ''[['') = None \<and>
   (\<not> linkChar d \<longrightarrow>
      wikilinkRegex_at (js ''[['' @ d # rest) = None \<and>
      wikilinkCaptures (js ''[['' @ d # rest) = wikilinkCaptures rest) \<and>
   links (calculateStats (js ''[[]]'')) = 0 \<and>
   links (calculateStats (js ''[[|Alias]]'')) = 0 \<and>
   links (calculateStats (js ''[[#Section]]'')) = 0"
proof -
  have "[] \<notin> set (wikilinkCaptures s)"
    using wikilinkCaptures_targets [of "[]" s] by (auto simp: isTarget_def)
  moreover have "wikilinkRegex_at (js ''[['') = None"
    using matchLit_append [of "js ''[[''" "[]"] by (simp add: wikilinkRegex_at_def)
  moreover have zero: "links (calculateStats (js ''[['' @ d' # r)) = 0"
    if d: "\<not> linkChar d'" and r: "chr16 CHR ''['' \<notin> set r" for d' r
  proof -
    have "js ''[['' @ d' # r = chr16 CHR ''['' # chr16 CHR ''['' # d' # r" by (simp add: js_def)
    moreover have "chr16 CHR ''['' \<noteq> chr16 CHR ''-''" by (simp add: chr16_def)
    ultimately have "replaceFrontmatter (js ''[['' @ d' # r) = js ''[['' @ d' # r"
      using replaceFrontmatter_not_dash by metis
    moreover have "wikilinkCaptures (js ''[['' @ d' # r) = []"
      using wikilinkCaptures_empty_target [OF d] wikilinkCaptures_skip [OF r, of "[]"]
      by (simp add: wikilinkCaptures_Nil)
    ultimately show ?thesis by (simp add: calculateStats_links)
  qed
  have "links (calculateStats (js ''[[]]'')) = 0"
    using zero [of "chr16 CHR '']''" "js '']''"] by (simp add: js_def chr16_def linkChar_def)
  moreover have "links (calculateStats (js ''[[|Alias]]'')) = 0"
    using zero [of "chr16 CHR ''|''" "js ''Alias]]''"]
    by (simp add: js_def chr16_def linkChar_def)
  moreover have "links (calculateStats (js ''[[#Section]]'')) = 0"
    using zero [of "chr16 CHR ''#''" "js ''Section]]''"]
    by (simp add: js_def chr16_def linkChar_def)
  ultimately show ?thesis
    using wikilinkRegex_at_empty_target wikilinkCaptures_empty_target by blast
qed

theorem C10_empty_target_witness:
  "\<not> linkChar (chr16 CHR '']'') \<and> \<not> linkChar (chr16 CHR ''|'') \<and> \<not> linkChar (chr16 CHR ''#'') \<and>
   wikilinkRegex_at (js ''[['' @ chr16 CHR ''|'' # js ''Alias]] and [[Page]]'') = None \<and>
   wikilinkCaptures (js ''[['' @ chr16 CHR ''|'' # js ''Alias]] and [[Page]]'') =
     wikilinkCaptures (js ''Alias]] and [[Page]]'') \<and>
   wikilinkCaptures (js ''Alias]] and [[Page]]'') = [js ''Page'']"
proof -
  have l: "\<not> linkChar (chr16 CHR '']'')" "\<not> linkChar (chr16 CHR ''|'')"
    "\<not> linkChar (chr16 CHR ''#'')"
    by (simp_all add: linkChar_def)
  have c: "wikilinkCaptures (js ''Alias]] and [[Page]]'') = [js ''Page'']" by code_simp
  from C10_empty_target [of "[]" "chr16 CHR ''|''" "js ''Alias]] and [[Page]]''"] l c
  show ?thesis by blast
qed

section \<open>The metadata block\<close>

text \<open>
  A document with no metadata block: a rule, a line with a URL, and a table whose
  delimiter row holds three dashes.
\<close>

definition ruleAndTable :: jsstring where
  "ruleAndTable = js ''---\<newline>See https://a.example/x\<newline>\<newline>| a |\<newline>|---|\<newline>''"

text \<open>
  What holds of the removal: a text that does not begin with a dash is left as it is
  (\<open>replaceFrontmatter_not_dash\<close>), and a block from three dashes to the next three
  dashes and a line feed, with no dash between, is removed whole.
\<close>

lemma closingFence_not_dash:
  "c \<noteq> chr16 CHR ''-'' \<Longrightarrow> closingFence (c # s) = None"
  by (simp add: closingFence_def js_def)

lemma lazyAnyThenFence_block:
  "chr16 CHR ''-'' \<notin> set body \<Longrightarrow>
   lazyAnyThenFence (body @ js ''---'' @ 0x0A # rest) = Some (body @ js ''---'' @ [0x0A], rest)"
proof (induction body)
  case Nil
  have "closingFence (js ''---'' @ 0x0A # rest) = Some (js ''---'' @ [0x0A], rest)"
    by (simp add: closingFence_def matchLit_append)
  moreover have "js ''---'' @ 0x0A # rest = chr16 CHR ''-'' # (js ''--'' @ 0x0A # rest)"
    by (simp add: js_def)
  ultimately show ?case by simp
next
  case (Cons c body)
  from Cons.prems have "c \<noteq> chr16 CHR ''-''" by auto
  from closingFence_not_dash [OF this] Cons show ?case by simp
qed

lemma replaceFrontmatter_block:
  assumes "chr16 CHR ''-'' \<notin> set body"
  shows "replaceFrontmatter (js ''---'' @ body @ js ''---'' @ 0x0A # rest) = rest"
  by (simp add: replaceFrontmatter_def frontmatterRegex_exec_def matchLit_append
      lazyAnyThenFence_block [OF assms])

text \<open>
  Claim C1 says that the text is scanned whole unless it begins with a line \<^verbatim>\<open>---\<close>, some
  content and another line \<^verbatim>\<open>---\<close>. The pattern asks for three dashes at index 0 and three
  dashes anywhere later, not for lines: in the document above, which has no second line
  \<^verbatim>\<open>---\<close>, everything up to the dashes of the table row is removed, and the URL, which a
  scan of the whole text finds, is not counted.
\<close>

theorem C1_frontmatter_overstrip:
  "replaceFrontmatter ruleAndTable = js ''|\<newline>'' \<and>
   urls (calculateStats ruleAndTable) = 0 \<and>
   urlRegex_matches ruleAndTable = [js ''https://a.example/x'']"
  unfolding ruleAndTable_def by code_simp

section \<open>The state field of the live view\<close>

lemma DecorationSet_map_widgets:
  "r \<in> set (DecorationSet_map mapPos decorations) \<Longrightarrow>
   \<exists>r0 \<in> set decorations. deco r = deco r0 \<and> mapPos (pos r0) = Some (pos r)"
  by (auto simp: DecorationSet_map_def map_filter_def split: option.splits)

lemma heap_copy: "p < length h \<Longrightarrow> (h @ [h ! p]) ! length h = h ! p"
  by simp

text \<open>
  Claim C6: a transaction that leaves the document unchanged only moves the ranges of
  the old decoration set through its change set; the widgets stay the old ones, no
  object is made, and neither the settings nor the text are looked at. A transaction
  that changes the document gives one decoration at the end of the new text, whose
  widget holds the counts of the whole new text and renders them with the settings
  of that moment. Both versions of the source agree on this.
\<close>

theorem C6_state_field:
  "(\<not> docChanged tr \<longrightarrow>
      update h p decorations tr = (DecorationSet_map (changes tr) decorations, h) \<and>
      update_main h p decorations tr = (DecorationSet_map (changes tr) decorations, h) \<and>
      fst (update h p decorations tr) = fst (update h' p' decorations (tr\<lparr>state_doc := doc'\<rparr>)) \<and>
      (\<forall>r \<in> set (fst (update h p decorations tr)).
         \<exists>r0 \<in> set decorations. deco r = deco r0 \<and> changes tr (pos r0) = Some (pos r))) \<and>
   (docChanged tr \<longrightarrow>
      update h p decorations tr =
        ([\<lparr>pos = length (state_doc tr),
           deco = \<lparr>widget = \<lparr>this_stats = calculateStats (state_doc tr),
                                this_settings = length h\<rparr>,
                    side = 1, block = True\<rparr>\<rparr>],
         h @ [h ! p]) \<and>
      update_main h p decorations tr =
        ([\<lparr>pos = length (state_doc tr),
           deco = \<lparr>widget = \<lparr>this_stats = calculateStats (state_doc tr),
                                this_settings = p\<rparr>,
                    side = 1, block = True\<rparr>\<rparr>],
         h) \<and>
      (\<forall>r \<in> set (fst (update h p decorations tr)).
         toDOM toLocaleString (snd (update h p decorations tr)) (widget (deco r)) =
           createEOFStatsElement toLocaleString (calculateStats (state_doc tr)) (h ! p)) \<and>
      (\<forall>r \<in> set (fst (update_main h p decorations tr)).
         toDOM_main toLocaleString (snd (update_main h p decorations tr)) (widget (deco r)) =
           eofContainer_main 6 toLocaleString (calculateStats (state_doc tr)) (h ! p)))"
proof -
  have keep: "update h p decorations tr = (DecorationSet_map (changes tr) decorations, h)"
    "update_main h p decorations tr = (DecorationSet_map (changes tr) decorations, h)"
    "fst (update h p decorations tr) = fst (update h' p' decorations (tr\<lparr>state_doc := doc'\<rparr>))"
    if "\<not> docChanged tr"
    using that by (simp_all add: update_def update_main_def)
  have same: "\<forall>r \<in> set (fst (update h p decorations tr)).
         \<exists>r0 \<in> set decorations. deco r = deco r0 \<and> changes tr (pos r0) = Some (pos r)"
    if "\<not> docChanged tr"
    using that DecorationSet_map_widgets [of _ "changes tr" decorations]
    by (simp add: update_def)
  have rebuild: "update h p decorations tr =
        ([\<lparr>pos = length (state_doc tr),
           deco = \<lparr>widget = \<lparr>this_stats = calculateStats (state_doc tr),
                                this_settings = length h\<rparr>,
                    side = 1, block = True\<rparr>\<rparr>],
         h @ [h ! p])"
    "update_main h p decorations tr =
        ([\<lparr>pos = length (state_doc tr),
           deco = \<lparr>widget = \<lparr>this_stats = calculateStats (state_doc tr),
                                this_settings = p\<rparr>,
                    side = 1, block = True\<rparr>\<rparr>],
         h)"
    if "docChanged tr"
    using that
    by (simp_all add: update_def update_main_def buildEOFDecoration_def
        buildEOFDecoration_main_def Let_def)
  have dom: "\<forall>r \<in> set (fst (update h p decorations tr)).
         toDOM toLocaleString (snd (update h p decorations tr)) (widget (deco r)) =
           createEOFStatsElement toLocaleString (calculateStats (state_doc tr)) (h ! p)"
    if "docChanged tr"
    unfolding rebuild(1) [OF that] by (simp add: toDOM_def)
  have dom_main: "\<forall>r \<in> set (fst (update_main h p decorations tr)).
         toDOM_main toLocaleString (snd (update_main h p decorations tr)) (widget (deco r)) =
           eofContainer_main 6 toLocaleString (calculateStats (state_doc tr)) (h ! p)"
    if "docChanged tr"
    unfolding rebuild(2) [OF that] by (simp add: toDOM_main_def)
  from keep same rebuild dom dom_main show ?thesis by blast
qed

theorem C6_state_field_witness:
  "update [DEFAULT_SETTINGS] 0
     [\<lparr>pos = 3, deco = \<lparr>widget = \<lparr>this_stats = \<lparr>urls = 0, links = 0\<rparr>, this_settings = 0\<rparr>,
                        side = 1, block = True\<rparr>\<rparr>]
     \<lparr>docChanged = False, changes = Some, state_doc = js ''abc''\<rparr> =
     ([\<lparr>pos = 3, deco = \<lparr>widget = \<lparr>this_stats = \<lparr>urls = 0, links = 0\<rparr>, this_settings = 0\<rparr>,
                         side = 1, block = True\<rparr>\<rparr>],
      [DEFAULT_SETTINGS]) \<and>
   update [DEFAULT_SETTINGS] 0
     [\<lparr>pos = 3, deco = \<lparr>widget = \<lparr>this_stats = \<lparr>urls = 0, links = 0\<rparr>, this_settings = 0\<rparr>,
                        side = 1, block = True\<rparr>\<rparr>]
     \<lparr>docChanged = True, changes = Some, state_doc = js ''see http://x''\<rparr> =
     ([\<lparr>pos = 12, deco = \<lparr>widget = \<lparr>this_stats = \<lparr>urls = 1, links = 0\<rparr>, this_settings = 1\<rparr>,
                          side = 1, block = True\<rparr>\<rparr>],
      [DEFAULT_SETTINGS, DEFAULT_SETTINGS])"
proof -
  let ?old = "[\<lparr>pos = 3, deco = \<lparr>widget = \<lparr>this_stats = \<lparr>urls = 0, links = 0\<rparr>,
      this_settings = 0\<rparr>, side = 1, block = True\<rparr>\<rparr>]"
  let ?move = "\<lparr>docChanged = False, changes = Some, state_doc = js ''abc''\<rparr>"
  let ?edit = "\<lparr>docChanged = True, changes = Some, state_doc = js ''see http://x''\<rparr>"
  have st: "calculateStats (js ''see http://x'') = \<lparr>urls = 1, links = 0\<rparr>" by code_simp
  have len: "length (js ''see http://x'') = 12" by (simp add: js_def)
  have id: "DecorationSet_map Some ?old = ?old"
    by (simp add: DecorationSet_map_def map_filter_def)
  have 1: "update [DEFAULT_SETTINGS] 0 ?old ?move = (?old, [DEFAULT_SETTINGS])"
    using C6_state_field [of ?move "[DEFAULT_SETTINGS]" 0 ?old] by (simp add: id)
  have 2: "update [DEFAULT_SETTINGS] 0 ?old ?edit =
     ([\<lparr>pos = 12, deco = \<lparr>widget = \<lparr>this_stats = \<lparr>urls = 1, links = 0\<rparr>, this_settings = 1\<rparr>,
                          side = 1, block = True\<rparr>\<rparr>],
      [DEFAULT_SETTINGS, DEFAULT_SETTINGS])"
    using C6_state_field [of ?edit "[DEFAULT_SETTINGS]" 0 ?old] by (simp add: st len)
  from 1 2 show ?thesis by blast
qed


section \<open>The reading view\<close>

lemma length_split_newline:
  "length (split_newline content) = Suc (length (filter (\<lambda>c. c = 0x0A) content))"
  by (induction content) (auto split: list.splits)

lemma appendChild_changes: "appendChild el child \<noteq> el"
  by (cases el) simp

text \<open>
  Claim C7: when the fragment has section information and the note is found and read,
  the footer is appended if and only if the last line of the fragment is at or after
  the last line index of the text read, which is its number of line feeds; otherwise
  the fragment is returned as it was. Both versions of the source agree on this.
\<close>

theorem C7_last_fragment:
  assumes "getSectionInfo ctx el = Some sectionInfo"
    and "getAbstractFileByPath vault (sourcePath ctx) = Some (TFile path)"
    and "cachedRead vault (TFile path) = Inr content"
  shows
    "addEOFToReadingView toLocaleString settings vault el ctx =
       (if lineEnd sectionInfo \<ge> length (filter (\<lambda>c. c = 0x0A) content)
        then appendChild el
               (createEOFStatsElement toLocaleString (calculateStats content) settings)
        else el, Settled) \<and>
     addEOFToReadingView_main toLocaleString settings vault el ctx =
       (if lineEnd sectionInfo \<ge> length (filter (\<lambda>c. c = 0x0A) content)
        then appendChild el
               (eofContainer_main 10 toLocaleString (calculateStats content) settings)
        else el, Settled) \<and>
     (fst (addEOFToReadingView toLocaleString settings vault el ctx) \<noteq> el \<longleftrightarrow>
        lineEnd sectionInfo \<ge> length (split_newline content) - 1) \<and>
     (fst (addEOFToReadingView_main toLocaleString settings vault el ctx) \<noteq> el \<longleftrightarrow>
        lineEnd sectionInfo \<ge> length (split_newline content) - 1)"
proof -
  have a: "addEOFToReadingView toLocaleString settings vault el ctx =
       (if lineEnd sectionInfo \<ge> length (filter (\<lambda>c. c = 0x0A) content)
        then appendChild el
               (createEOFStatsElement toLocaleString (calculateStats content) settings)
        else el, Settled)"
    using assms by (simp add: addEOFToReadingView_def length_split_newline Let_def)
  have b: "addEOFToReadingView_main toLocaleString settings vault el ctx =
       (if lineEnd sectionInfo \<ge> length (filter (\<lambda>c. c = 0x0A) content)
        then appendChild el
               (eofContainer_main 10 toLocaleString (calculateStats content) settings)
        else el, Settled)"
    using assms by (simp add: addEOFToReadingView_main_def length_split_newline Let_def)
  show ?thesis
    unfolding a b by (simp add: length_split_newline appendChild_changes)
qed


text \<open>
  A vault with one note of two lines, and the contexts of its two fragments; the same
  note in a vault where it can be found but no longer read.
\<close>

definition noteVault :: Vault where
  "noteVault =
     \<lparr>getAbstractFileByPath =
        (\<lambda>p. if p = js ''note.md'' then Some (TFile (js ''note.md'')) else None),
      cachedRead = (\<lambda>f. Inr (js ''See [[Page]]\<newline>https://a.example/x''))\<rparr>"

definition vanishedVault :: Vault where
  "vanishedVault =
     \<lparr>getAbstractFileByPath =
        (\<lambda>p. if p = js ''note.md'' then Some (TFile (js ''note.md'')) else None),
      cachedRead = (\<lambda>f. Inl (Rejection (js ''ENOENT'')))\<rparr>"

definition fragment :: "nat \<Rightarrow> MarkdownPostProcessorContext" where
  "fragment line =
     \<lparr>sourcePath = js ''note.md'',
      getSectionInfo = (\<lambda>el. Some \<lparr>lineStart = line, lineEnd = line\<rparr>)\<rparr>"

theorem C7_last_fragment_witness:
  "getSectionInfo (fragment 1) (createElement ''p'') = Some \<lparr>lineStart = 1, lineEnd = 1\<rparr> \<and>
   getAbstractFileByPath noteVault (sourcePath (fragment 1)) = Some (TFile (js ''note.md'')) \<and>
   cachedRead noteVault (TFile (js ''note.md'')) =
     Inr (js ''See [[Page]]\<newline>https://a.example/x'') \<and>
   addEOFToReadingView toLocaleString_enUS DEFAULT_SETTINGS noteVault (createElement ''p'')
     (fragment 1) =
     (appendChild (createElement ''p'')
        (createEOFStatsElement toLocaleString_enUS \<lparr>urls = 1, links = 1\<rparr> DEFAULT_SETTINGS),
      Settled) \<and>
   addEOFToReadingView toLocaleString_enUS DEFAULT_SETTINGS noteVault (createElement ''p'')
     (fragment 0) = (createElement ''p'', Settled) \<and>
   addEOFToReadingView_main toLocaleString_enUS DEFAULT_SETTINGS noteVault (createElement ''p'')
     (fragment 0) = (createElement ''p'', Settled)"
proof -
  let ?content = "js ''See [[Page]]\<newline>https://a.example/x''"
  have s: "getSectionInfo (fragment n) (createElement ''p'') =
      Some \<lparr>lineStart = n, lineEnd = n\<rparr>" for n
    by (simp add: fragment_def)
  have f: "getAbstractFileByPath noteVault (sourcePath (fragment n)) =
      Some (TFile (js ''note.md''))" for n
    by (simp add: fragment_def noteVault_def)
  have r: "cachedRead noteVault (TFile (js ''note.md'')) = Inr ?content"
    by (simp add: noteVault_def)
  have st: "calculateStats ?content = \<lparr>urls = 1, links = 1\<rparr>" by code_simp
  have nl: "length (filter (\<lambda>c. c = 0x0A) ?content) = 1"
    by (simp add: js_def chr16_def)
  from C7_last_fragment [OF s [of 1] f [of 1] r,
        where toLocaleString = toLocaleString_enUS and settings = DEFAULT_SETTINGS]
    C7_last_fragment [OF s [of 0] f [of 0] r,
        where toLocaleString = toLocaleString_enUS and settings = DEFAULT_SETTINGS]
    s [of 1] f [of 1] r
  show ?thesis by (simp add: st nl)
qed

text \<open>
  When the section information is missing, the note is not found, is a folder, or its
  read is rejected, the later version of the source leaves the fragment alone and no
  rejection stays unhandled. In \<^verbatim>\<open>main.ts\<close> a rejected read is taken by no handler.
\<close>

lemma addEOFToReadingView_silent:
  assumes "getSectionInfo ctx el = None \<or>
           getAbstractFileByPath vault (sourcePath ctx) = None \<or>
           (\<exists>p. getAbstractFileByPath vault (sourcePath ctx) = Some (TFolder p)) \<or>
           (\<exists>p r. getAbstractFileByPath vault (sourcePath ctx) = Some (TFile p) \<and>
                  cachedRead vault (TFile p) = Inl r)"
  shows "addEOFToReadingView toLocaleString settings vault el ctx = (el, Settled)"
  using assms
  by (auto simp: addEOFToReadingView_def split: option.splits TAbstractFile.splits sum.splits)

lemma addEOFToReadingView_main_unhandled:
  assumes "getSectionInfo ctx el = Some sectionInfo"
    and "getAbstractFileByPath vault (sourcePath ctx) = Some file"
    and "cachedRead vault file = Inl r"
  shows "addEOFToReadingView_main toLocaleString settings vault el ctx =
           (el, UnhandledRejection r)"
  using assms by (simp add: addEOFToReadingView_main_def)

text \<open>
  The callback registered in \<^verbatim>\<open>onload\<close>,
  \<^verbatim>\<open>(el, ctx) => { this.addEOFToReadingView(el, ctx); }\<close>, the same in both versions: its
  body is a block, so the render pipeline is handed \<^verbatim>\<open>undefined\<close> and never the promise
  of the read, whatever becomes of that promise.
\<close>

datatype handed = Undefined | Promise completion

definition postProcessor ::
  "(nat \<Rightarrow> jsstring) \<Rightarrow> EOFStatsSettings \<Rightarrow> Vault \<Rightarrow> HTMLElement \<Rightarrow>
   MarkdownPostProcessorContext \<Rightarrow> HTMLElement \<times> handed" where
  "postProcessor toLocaleString settings vault el ctx =
     (case addEOFToReadingView toLocaleString settings vault el ctx of
        (el', promise) \<Rightarrow> (el', Undefined))"

definition postProcessor_main ::
  "(nat \<Rightarrow> jsstring) \<Rightarrow> EOFStatsSettings \<Rightarrow> Vault \<Rightarrow> HTMLElement \<Rightarrow>
   MarkdownPostProcessorContext \<Rightarrow> HTMLElement \<times> handed" where
  "postProcessor_main toLocaleString settings vault el ctx =
     (case addEOFToReadingView_main toLocaleString settings vault el ctx of
        (el', promise) \<Rightarrow> (el', Undefined))"

lemma addEOFToReadingView_main_fragment:
  assumes "getAbstractFileByPath vault (sourcePath ctx) = None \<or>
           (\<exists>file r. getAbstractFileByPath vault (sourcePath ctx) = Some file \<and>
                     cachedRead vault file = Inl r)"
  shows "fst (addEOFToReadingView_main toLocaleString settings vault el ctx) = el"
  using assms
  by (auto simp: addEOFToReadingView_main_def split: option.splits sum.splits)

lemma main_rejection_unhandled:
  "addEOFToReadingView_main toLocaleString_enUS DEFAULT_SETTINGS vanishedVault
     (createElement ''p'') (fragment 1) =
     (createElement ''p'', UnhandledRejection (Rejection (js ''ENOENT'')))"
  by (simp add: addEOFToReadingView_main_def vanishedVault_def fragment_def)

text \<open>
  Claim C8: when the note is not found, or is found and its read is rejected, the
  fragment gets no footer and is returned as it was, and the render pipeline is handed
  \<^verbatim>\<open>undefined\<close>, no error and no promise. This holds for both versions of the source;
  in the later one the rejection is also handled (\<^verbatim>\<open>.catch(() => {})\<close>), while in
  \<^verbatim>\<open>main.ts\<close> it stays with the runtime, out of the pipeline's sight
  (\<open>main_rejection_unhandled\<close>).
\<close>

theorem C8_silent_failure:
  assumes "getAbstractFileByPath vault (sourcePath ctx) = None \<or>
           (\<exists>file r. getAbstractFileByPath vault (sourcePath ctx) = Some file \<and>
                     cachedRead vault file = Inl r)"
  shows "addEOFToReadingView toLocaleString settings vault el ctx = (el, Settled) \<and>
         fst (addEOFToReadingView_main toLocaleString settings vault el ctx) = el \<and>
         postProcessor toLocaleString settings vault el ctx = (el, Undefined) \<and>
         postProcessor_main toLocaleString settings vault el ctx = (el, Undefined)"
proof -
  have later: "addEOFToReadingView toLocaleString settings vault el ctx = (el, Settled)"
  proof (rule addEOFToReadingView_silent)
    from assms
    show "getSectionInfo ctx el = None \<or>
          getAbstractFileByPath vault (sourcePath ctx) = None \<or>
          (\<exists>p. getAbstractFileByPath vault (sourcePath ctx) = Some (TFolder p)) \<or>
          (\<exists>p r. getAbstractFileByPath vault (sourcePath ctx) = Some (TFile p) \<and>
                 cachedRead vault (TFile p) = Inl r)"
    proof
      assume "getAbstractFileByPath vault (sourcePath ctx) = None"
      then show ?thesis by simp
    next
      assume "\<exists>file r. getAbstractFileByPath vault (sourcePath ctx) = Some file \<and>
                cachedRead vault file = Inl r"
      then obtain entry r where f: "getAbstractFileByPath vault (sourcePath ctx) = Some entry"
        and r: "cachedRead vault entry = Inl r" by blast
      show ?thesis
      proof (cases entry)
        case (TFile p)
        with f r show ?thesis by blast
      next
        case (TFolder p)
        with f show ?thesis by blast
      qed
    qed
  qed
  have main: "fst (addEOFToReadingView_main toLocaleString settings vault el ctx) = el"
    by (rule addEOFToReadingView_main_fragment [OF assms])
  have "postProcessor toLocaleString settings vault el ctx = (el, Undefined)"
    by (simp add: postProcessor_def later)
  moreover have "postProcessor_main toLocaleString settings vault el ctx = (el, Undefined)"
    using main by (cases "addEOFToReadingView_main toLocaleString settings vault el ctx")
      (simp add: postProcessor_main_def)
  ultimately show ?thesis using later main by blast
qed

theorem C8_silent_failure_witness:
  "getAbstractFileByPath vanishedVault (sourcePath (fragment 1)) = Some (TFile (js ''note.md'')) \<and>
   cachedRead vanishedVault (TFile (js ''note.md'')) = Inl (Rejection (js ''ENOENT'')) \<and>
   addEOFToReadingView toLocaleString_enUS DEFAULT_SETTINGS vanishedVault (createElement ''p'')
     (fragment 1) = (createElement ''p'', Settled) \<and>
   postProcessor toLocaleString_enUS DEFAULT_SETTINGS vanishedVault (createElement ''p'')
     (fragment 1) = (createElement ''p'', Undefined) \<and>
   postProcessor_main toLocaleString_enUS DEFAULT_SETTINGS vanishedVault (createElement ''p'')
     (fragment 1) = (createElement ''p'', Undefined) \<and>
   getAbstractFileByPath noteVault (sourcePath ((fragment 1)\<lparr>sourcePath := js ''gone.md''\<rparr>)) =
     None \<and>
   postProcessor_main toLocaleString_enUS DEFAULT_SETTINGS noteVault (createElement ''p'')
     ((fragment 1)\<lparr>sourcePath := js ''gone.md''\<rparr>) = (createElement ''p'', Undefined)"
proof -
  have f: "getAbstractFileByPath vanishedVault (sourcePath (fragment 1)) =
      Some (TFile (js ''note.md''))"
    by (simp add: vanishedVault_def fragment_def)
  have r: "cachedRead vanishedVault (TFile (js ''note.md'')) = Inl (Rejection (js ''ENOENT''))"
    by (simp add: vanishedVault_def)
  have g: "getAbstractFileByPath noteVault
      (sourcePath ((fragment 1)\<lparr>sourcePath := js ''gone.md''\<rparr>)) = None"
    by (simp add: noteVault_def js_def chr16_def)
  have h1: "getAbstractFileByPath vanishedVault (sourcePath (fragment 1)) = None \<or>
      (\<exists>file r. getAbstractFileByPath vanishedVault (sourcePath (fragment 1)) = Some file \<and>
         cachedRead vanishedVault file = Inl r)"
    using f r by blast
  from C8_silent_failure [OF h1, of toLocaleString_enUS DEFAULT_SETTINGS "createElement ''p''"]
    C8_silent_failure [OF disjI1 [OF g], of toLocaleString_enUS DEFAULT_SETTINGS
      "createElement ''p''"]
    f r g
  show ?thesis by blast
qed

section \<open>Widgets and the shared settings\<close>

text \<open>
  \<^verbatim>\<open>eq\<close> compares the two counts and the five settings fields by value. With the copy
  of the later version, a widget's settings are those of the moment it was built,
  whatever is assigned to the shared object afterwards; in \<^verbatim>\<open>main.ts\<close> the widget reads
  the shared object itself.
\<close>

lemma eq_by_value:
  "eq h w1 w2 \<longleftrightarrow>
     this_stats w1 = this_stats w2 \<and> h ! this_settings w1 = h ! this_settings w2"
  by (auto simp: eq_def FileStats.equality EOFStatsSettings.equality)

lemma buildEOFDecoration_copy:
  assumes "p < length h" and "buildEOFDecoration h content p = (ds, h1)"
    and "r \<in> set ds"
  shows "h1 ! this_settings (widget (deco r)) = h ! p \<and>
         (assignSettings h1 p f) ! this_settings (widget (deco r)) = h ! p \<and>
         toDOM toLocaleString (assignSettings h1 p f) (widget (deco r)) =
           toDOM toLocaleString h1 (widget (deco r))"
  using assms
  by (auto simp: buildEOFDecoration_def Let_def assignSettings_def toDOM_def nth_append)

lemma buildEOFDecoration_main_shares:
  assumes "p < length h" and "buildEOFDecoration_main h content p = (ds, h1)"
    and "r \<in> set ds"
  shows "(assignSettings h1 p f) ! this_settings (widget (deco r)) = f (h ! p)"
  using assms
  by (auto simp: buildEOFDecoration_main_def Let_def assignSettings_def)

text \<open>
  Claim C9 says that every recomputation stores a copy of the settings, so that a later
  assignment to the shared settings does not change a widget already built, and that
  \<^verbatim>\<open>eq\<close> compares by value. The later version does so: after \<^verbatim>\<open>showUrls\<close> is switched
  off, the old widget still shows URLs and differs from the rebuilt one. In \<^verbatim>\<open>main.ts\<close>
  the widget holds the shared object: the old widget changes with the assignment, and
  \<^verbatim>\<open>eq\<close> finds the old and the rebuilt widget equal, because both read the same object.
\<close>

theorem C9_settings_reference:
  "(let h0 = [DEFAULT_SETTINGS];
        (ds, h1) = buildEOFDecoration_main h0 (js ''text'') 0;
        w = widget (deco (hd ds));
        h2 = assignSettings h1 0 (\<lambda>s. s\<lparr>showUrls := False\<rparr>);
        (ds', h3) = buildEOFDecoration_main h2 (js ''text'') 0;
        w' = widget (deco (hd ds'))
    in showUrls (h1 ! this_settings w) \<and> \<not> showUrls (h2 ! this_settings w) \<and> eq h3 w w') \<and>
   (let h0 = [DEFAULT_SETTINGS];
        (ds, h1) = buildEOFDecoration h0 (js ''text'') 0;
        w = widget (deco (hd ds));
        h2 = assignSettings h1 0 (\<lambda>s. s\<lparr>showUrls := False\<rparr>);
        (ds', h3) = buildEOFDecoration h2 (js ''text'') 0;
        w' = widget (deco (hd ds'))
    in showUrls (h1 ! this_settings w) \<and> showUrls (h2 ! this_settings w) \<and> \<not> eq h3 w w')"
  by (simp add: buildEOFDecoration_main_def buildEOFDecoration_def Let_def assignSettings_def
      eq_def DEFAULT_SETTINGS_def)

end
